theory Spec2Isabelle
  imports Complex_Main
begin

section \<open>Python values used by fieldoperations.py\<close>

text \<open>
  Exceptions are values. \<open>UndefinedError\<close> is the class the module reaches as
  \<open>util.UndefinedError\<close>; \<open>NameError\<close> carries the name Python failed to resolve;
  \<open>OverflowError\<close> and \<open>TypeError\<close> are what storing a scalar into a float64 array
  can raise.
\<close>

datatype error =
    ValueError string
  | RuntimeError string
  | UndefinedError string
  | NameError string
  | AssertionError
  | IndexError
  | OverflowError
  | TypeError

definition bindE :: "error + 'a \<Rightarrow> ('a \<Rightarrow> error + 'b) \<Rightarrow> error + 'b" where
  "bindE m f = (case m of Inl e \<Rightarrow> Inl e | Inr x \<Rightarrow> f x)"

text \<open>A \<open>for\<close> loop whose body may raise: the first exception ends the loop.\<close>

fun foldE :: "('a \<Rightarrow> 's \<Rightarrow> error + 's) \<Rightarrow> 'a list \<Rightarrow> 's \<Rightarrow> error + 's" where
  "foldE f [] s = Inr s"
| "foldE f (x # xs) s = (case f x s of Inl e \<Rightarrow> Inl e | Inr s' \<Rightarrow> foldE f xs s')"

text \<open>
  \<open>range(start, stop, step)\<close> for non-negative \<open>start\<close> and \<open>stop\<close> and any integer
  \<open>step\<close>: a zero step raises, a negative step counts down (and yields nothing when
  \<open>start \<le> stop\<close>). \<open>xrange\<close> yields the same indices.
\<close>

definition py_range :: "nat \<Rightarrow> nat \<Rightarrow> int \<Rightarrow> error + nat list" where
  "py_range start stop step =
     (if step = 0 then Inl (ValueError ''range() step argument must not be zero'')
      else if 0 < step then
        Inr (map (\<lambda>k. start + k * nat step)
               [0 ..< (stop - start + nat step - 1) div nat step])
      else
        Inr (map (\<lambda>k. start - k * nat (- step))
               [0 ..< (start - stop + nat (- step) - 1) div nat (- step)]))"

text \<open>\<open>xs[a:b]\<close> with \<open>0 \<le> a\<close> and \<open>0 \<le> b\<close>; Python clamps both ends to the list.\<close>

definition slice :: "'a list \<Rightarrow> nat \<Rightarrow> nat \<Rightarrow> 'a list" where
  "slice xs a b = take (b - a) (drop a xs)"

text \<open>\<open>xs[i]\<close> with \<open>0 \<le> i\<close>: reading past the end raises.\<close>

definition py_nth :: "'a list \<Rightarrow> nat \<Rightarrow> error + 'a" where
  "py_nth xs i = (if i < length xs then Inr (xs ! i) else Inl IndexError)"

text \<open>
  A path argument is either one path (a \<open>str\<close>) or a list of paths; every public
  method begins by wrapping a lone path in a list (\<open>isinstance(x, str)\<close>).
\<close>

datatype 'a arg = Single 'a | Several "'a list"

fun as_list :: "'a arg \<Rightarrow> 'a list" where
  "as_list (Single x) = [x]"
| "as_list (Several xs) = xs"

subsection \<open>Dense matrices (numpy.mat)\<close>

text \<open>A matrix keeps its shape beside its rows, so a matrix with no row still has a width.\<close>

datatype 'v mat = Mat (nrows: nat) (ncols: nat) (rows_of: "'v list list")

definition wf_mat :: "'v mat \<Rightarrow> bool" where
  "wf_mat M \<longleftrightarrow> length (rows_of M) = nrows M \<and> list_all (\<lambda>r. length r = ncols M) (rows_of M)"

definition entry :: "'v mat \<Rightarrow> nat \<Rightarrow> nat \<Rightarrow> 'v" where
  "entry M i j = rows_of M ! i ! j"

text \<open>\<open>M[i, j]\<close> with non-negative indices; outside the shape numpy raises.\<close>

definition mat_get :: "'v mat \<Rightarrow> nat \<Rightarrow> nat \<Rightarrow> error + 'v" where
  "mat_get M i j = (if i < nrows M \<and> j < ncols M then Inr (entry M i j) else Inl IndexError)"

text \<open>\<open>M.T\<close>\<close>

definition transpose_mat :: "'v mat \<Rightarrow> 'v mat" where
  "transpose_mat M =
     Mat (ncols M) (nrows M) (map (\<lambda>j. map (\<lambda>i. entry M i j) [0 ..< nrows M]) [0 ..< ncols M])"

subsection \<open>Matrices of float64\<close>

text \<open>
  The inner product matrices are allocated by \<open>N.mat(N.zeros(...))\<close>, so their elements
  are float64 whatever the inner product returns. What numpy does with float64 is a
  parameter: \<open>to_float64\<close> is the conversion applied when a Python scalar of type \<open>'v\<close> is
  stored into a float64 array (a float is kept, an integer is rounded to the nearest
  float64 or raises \<open>OverflowError\<close> when too large, a complex raises \<open>TypeError\<close>),
  \<open>zero64\<close> is \<open>0.0\<close> and \<open>add64\<close> is float64 addition. Float64 values have type \<open>'d\<close>.
\<close>

record ('v, 'd) float64_ops =
  to_float64 :: "'v \<Rightarrow> error + 'd"
  zero64 :: "'d"
  add64 :: "'d \<Rightarrow> 'd \<Rightarrow> 'd"

text \<open>\<open>N.mat(N.zeros((r, c)))\<close>\<close>

definition zeros :: "('v, 'd) float64_ops \<Rightarrow> nat \<Rightarrow> nat \<Rightarrow> 'd mat" where
  "zeros np r c = Mat r c (replicate r (replicate c (zero64 np)))"

text \<open>
  \<open>M[i, j] = v\<close> on a float64 matrix, with non-negative indices: outside the shape numpy
  raises; otherwise \<open>v\<close> is converted to float64, which may raise, and the converted value
  is stored.
\<close>

definition mat_set :: "('v, 'd) float64_ops \<Rightarrow> 'd mat \<Rightarrow> nat \<Rightarrow> nat \<Rightarrow> 'v \<Rightarrow> error + 'd mat" where
  "mat_set np M i j v =
     (if i < nrows M \<and> j < ncols M
      then bindE (to_float64 np v) (\<lambda>d.
             Inr (Mat (nrows M) (ncols M) ((rows_of M)[i := (rows_of M ! i)[j := d]])))
      else Inl IndexError)"

text \<open>\<open>N.triu(M, k)\<close> for \<open>k \<ge> 0\<close>: entries below the k-th diagonal become zero.\<close>

definition triu :: "('v, 'd) float64_ops \<Rightarrow> 'd mat \<Rightarrow> nat \<Rightarrow> 'd mat" where
  "triu np M k =
     Mat (nrows M) (ncols M)
       (map (\<lambda>i. map (\<lambda>j. if i + k \<le> j then entry M i j else zero64 np) [0 ..< ncols M])
            [0 ..< nrows M])"

text \<open>
  \<open>A += B\<close> on two-dimensional float64 arrays: \<open>B\<close> is broadcast to the shape of \<open>A\<close> (an
  axis of length one is repeated), and any other mismatch raises.
\<close>

definition mat_iadd :: "('v, 'd) float64_ops \<Rightarrow> 'd mat \<Rightarrow> 'd mat \<Rightarrow> error + 'd mat" where
  "mat_iadd np A B =
     (if (nrows B = nrows A \<or> nrows B = 1) \<and> (ncols B = ncols A \<or> ncols B = 1)
      then Inr (Mat (nrows A) (ncols A)
             (map (\<lambda>i. map (\<lambda>j. add64 np (entry A i j)
                                   (entry B (if nrows B = nrows A then i else 0)
                                            (if ncols B = ncols A then j else 0)))
                        [0 ..< ncols A]) [0 ..< nrows A]))
      else Inl (ValueError ''operands could not be broadcast together''))"

section \<open>The facade\<close>

text \<open>
  The module \<open>util\<close> is imported but is not among the sources. Its two functions that
  decide sizes are taken as parameters: the number of worker processes and the chunk
  sizer that maps the memory budget to (rows per chunk, columns per chunk).
\<close>

record util_module =
  getNumProcs :: int
  find_numRows_numCols_per_chunk :: "int \<Rightarrow> int \<times> int"

text \<open>
  The attributes of a \<open>FieldOperations\<close> object. Fields have type \<open>'f\<close>, paths \<open>'h\<close>,
  inner products \<open>'v\<close>. \<open>load_field\<close> is a function of the path alone, as the interface
  requires; what a call of \<open>save_field\<close> writes has type \<open>'w\<close>, and the methods that save
  return the writes they made, in order. \<open>save_field\<close> may be absent (\<open>None\<close>).
\<close>

record ('h, 'f, 'v, 'w) field_operations =
  load_field :: "'h \<Rightarrow> 'f"
  save_field :: "('f \<Rightarrow> 'h \<Rightarrow> 'w) option"
  inner_product :: "'f \<Rightarrow> 'f \<Rightarrow> 'v"
  maxFields :: int
  verbose :: bool

text \<open>
  Modelled from the spec: \<open>util.eval_func_tuple\<close> is not among the sources; the worker
  pool applies a supplied function to each element of a sequence and returns the results
  in input order, and \<open>eval_func_tuple\<close> applies the function paired with its argument.
\<close>

definition eval_func_tuple :: "('a \<Rightarrow> 'b) \<times> 'a \<Rightarrow> 'b" where
  "eval_func_tuple fa = (fst fa) (snd fa)"

text \<open>\<open>self.pool.map(f, xs)\<close>: results in input order.\<close>

definition pool_map :: "('a \<Rightarrow> 'b) \<Rightarrow> 'a list \<Rightarrow> 'b list" where
  "pool_map f xs = map f xs"

subsection \<open>Rectangular inner product matrix\<close>

text \<open>
  The two innermost loops of \<open>_compute_inner_product_chunk\<close>: every inner product of a
  loaded row chunk with a loaded column chunk is written at its global indices.
\<close>

definition inner_product_block ::
  "('v, 'd) float64_ops \<Rightarrow> ('f \<Rightarrow> 'f \<Rightarrow> 'v) \<Rightarrow> 'f list \<Rightarrow> 'f list \<Rightarrow> nat \<Rightarrow> nat \<Rightarrow> nat \<Rightarrow> nat
     \<Rightarrow> 'd mat \<Rightarrow> error + 'd mat" where
  "inner_product_block np ip rowSnaps colSnaps startRowIndex endRowIndex startColIndex endColIndex =
     foldE (\<lambda>rowIndex.
        foldE (\<lambda>colIndex innerProductMat.
           bindE (py_nth rowSnaps (rowIndex - startRowIndex)) (\<lambda>r.
           bindE (py_nth colSnaps (colIndex - startColIndex)) (\<lambda>c.
           mat_set np innerProductMat rowIndex colIndex (ip r c))))
         [startColIndex ..< endColIndex])
      [startRowIndex ..< endRowIndex]"

definition compute_inner_product_chunk ::
  "util_module \<Rightarrow> ('v, 'd) float64_ops \<Rightarrow> ('h, 'f, 'v, 'w) field_operations \<Rightarrow> 'h arg \<Rightarrow> 'h arg
     \<Rightarrow> error + 'd mat" where
  "compute_inner_product_chunk util np self rowArg colArg =
     (let rowFieldPaths0 = as_list rowArg;
          colFieldPaths0 = as_list colArg;
          transpose = (length rowFieldPaths0 > length colFieldPaths0);
          rowFieldPaths = (if transpose then colFieldPaths0 else rowFieldPaths0);
          colFieldPaths = (if transpose then rowFieldPaths0 else colFieldPaths0);
          numRows = length rowFieldPaths;
          numCols = length colFieldPaths;
          (numRowsPerChunk, numColsPerChunk) = find_numRows_numCols_per_chunk util (maxFields self)
      in bindE (py_range 0 numRows numRowsPerChunk) (\<lambda>rowStarts.
         bindE (foldE (\<lambda>startRowIndex innerProductMat.
                  let endRowIndex = nat (min (int numRows) (int startRowIndex + numRowsPerChunk));
                      rowSnaps = pool_map (load_field self) (slice rowFieldPaths startRowIndex endRowIndex)
                  in bindE (py_range 0 numCols numColsPerChunk) (\<lambda>colStarts.
                     foldE (\<lambda>startColIndex innerProductMat.
                        let endColIndex = nat (min (int numCols) (int startColIndex + numColsPerChunk));
                            colSnaps = pool_map (load_field self) (slice colFieldPaths startColIndex endColIndex)
                        in inner_product_block np (inner_product self) rowSnaps colSnaps
                             startRowIndex endRowIndex startColIndex endColIndex innerProductMat)
                      colStarts innerProductMat))
                rowStarts (zeros np numRows numCols)) (\<lambda>innerProductMat.
         Inr (if transpose then transpose_mat innerProductMat else innerProductMat))))"

definition compute_inner_product_mat ::
  "util_module \<Rightarrow> ('v, 'd) float64_ops \<Rightarrow> ('h, 'f, 'v, 'w) field_operations \<Rightarrow> 'h arg \<Rightarrow> 'h arg
     \<Rightarrow> error + 'd mat" where
  "compute_inner_product_mat util np self rowArg colArg =
     (let rowFieldPaths0 = as_list rowArg;
          colFieldPaths0 = as_list colArg;
          transpose = (length rowFieldPaths0 > length colFieldPaths0);
          rowFieldPaths = (if transpose then colFieldPaths0 else rowFieldPaths0);
          colFieldPaths = (if transpose then rowFieldPaths0 else colFieldPaths0)
      in bindE (compute_inner_product_chunk util np self (Several rowFieldPaths) (Several colFieldPaths))
           (\<lambda>innerProductMat.
              Inr (if transpose then transpose_mat innerProductMat else innerProductMat)))"

text \<open>A list comprehension whose element expression may raise.\<close>

fun mapE :: "('a \<Rightarrow> error + 'b) \<Rightarrow> 'a list \<Rightarrow> error + 'b list" where
  "mapE f [] = Inr []"
| "mapE f (x # xs) = bindE (f x) (\<lambda>y. bindE (mapE f xs) (\<lambda>ys. Inr (y # ys)))"

text \<open>
  The unbounded computation the chunked one is compared with: the orientation rule is the
  same (the shorter list becomes the rows, and the result is transposed back), but all
  fields of both lists are loaded at once and every inner product of a row field with a
  column field is taken and stored as float64, row by row, with no chunking.
\<close>

definition pairwise_inner_products ::
  "('v, 'd) float64_ops \<Rightarrow> ('h, 'f, 'v, 'w) field_operations \<Rightarrow> 'h list \<Rightarrow> 'h list \<Rightarrow> error + 'd mat" where
  "pairwise_inner_products np self rowFieldPaths colFieldPaths =
     (let rowFields = map (load_field self) rowFieldPaths;
          colFields = map (load_field self) colFieldPaths
      in bindE (mapE (\<lambda>r. mapE (\<lambda>c. to_float64 np (inner_product self r c)) colFields) rowFields)
           (\<lambda>rows. Inr (Mat (length rowFieldPaths) (length colFieldPaths) rows)))"

definition all_in_memory_inner_product_mat ::
  "('v, 'd) float64_ops \<Rightarrow> ('h, 'f, 'v, 'w) field_operations \<Rightarrow> 'h list \<Rightarrow> 'h list \<Rightarrow> error + 'd mat" where
  "all_in_memory_inner_product_mat np self rowFieldPaths colFieldPaths =
     (if length rowFieldPaths > length colFieldPaths
      then bindE (pairwise_inner_products np self colFieldPaths rowFieldPaths)
             (\<lambda>M. Inr (transpose_mat M))
      else pairwise_inner_products np self rowFieldPaths colFieldPaths)"

subsection \<open>Symmetric inner product matrix\<close>

text \<open>
  The first inner loops of \<open>_compute_upper_triangular_inner_product_chunk\<close>: within the
  loaded row chunk, the diagonal entry and the entries to its right, up to the end of the
  chunk, are computed from the row fields alone.
\<close>

definition upper_triangle_block ::
  "('v, 'd) float64_ops \<Rightarrow> ('f \<Rightarrow> 'f \<Rightarrow> 'v) \<Rightarrow> 'f list \<Rightarrow> nat \<Rightarrow> nat \<Rightarrow> 'd mat \<Rightarrow> error + 'd mat" where
  "upper_triangle_block np ip rowFields startRowIndex endRowIndex =
     foldE (\<lambda>rowIndex innerProductMatChunk.
        bindE (py_nth rowFields (rowIndex - startRowIndex)) (\<lambda>r.
        bindE (mat_set np innerProductMatChunk rowIndex rowIndex (ip r r)) (\<lambda>innerProductMatChunk.
        foldE (\<lambda>colIndex innerProductMatChunk.
           bindE (py_nth rowFields (rowIndex - startRowIndex)) (\<lambda>r.
           bindE (py_nth rowFields (colIndex - startRowIndex)) (\<lambda>c.
           mat_set np innerProductMatChunk rowIndex colIndex (ip r c))))
         [rowIndex + 1 ..< endRowIndex] innerProductMatChunk)))
      [startRowIndex ..< endRowIndex]"

definition compute_upper_triangular_inner_product_chunk ::
  "util_module \<Rightarrow> ('v, 'd) float64_ops \<Rightarrow> ('h, 'f, 'v, 'w) field_operations \<Rightarrow> 'h arg \<Rightarrow> 'h arg
     \<Rightarrow> error + 'd mat" where
  "compute_upper_triangular_inner_product_chunk util np self rowArg colArg =
     (let rowFieldPaths = as_list rowArg;
          colFieldPaths = as_list colArg;
          numRows = length rowFieldPaths;
          numCols = length colFieldPaths
      in if rowFieldPaths \<noteq> slice colFieldPaths 0 numRows
         then Inl (ValueError (''rowFieldPaths and colFieldPaths must share ''
                @ ''same leading entries for a symmetric inner product matrix chunk.''))
         else
         let (numRowsPerChunk, numColsPerChunk) = find_numRows_numCols_per_chunk util (maxFields self)
         in bindE (py_range 0 numRows numRowsPerChunk) (\<lambda>rowStarts.
            foldE (\<lambda>startRowIndex innerProductMatChunk.
               let endRowIndex = nat (min (int numRows) (int startRowIndex + numRowsPerChunk));
                   rowFields = pool_map eval_func_tuple
                     (map (Pair (load_field self)) (slice rowFieldPaths startRowIndex endRowIndex))
               in bindE (upper_triangle_block np (inner_product self) rowFields
                           startRowIndex endRowIndex innerProductMatChunk) (\<lambda>innerProductMatChunk.
                  if numColsPerChunk \<noteq> 0
                  then bindE (py_range endRowIndex numCols numColsPerChunk) (\<lambda>colStarts.
                       foldE (\<lambda>startColIndex innerProductMatChunk.
                          let endColIndex = nat (min (int numCols) (int startColIndex + numColsPerChunk));
                              colFields = pool_map eval_func_tuple
                                (map (Pair (load_field self)) (slice colFieldPaths startColIndex endColIndex))
                          in inner_product_block np (inner_product self) rowFields colFields
                               startRowIndex endRowIndex startColIndex endColIndex innerProductMatChunk)
                        colStarts innerProductMatChunk)
                  else Inr innerProductMatChunk))
             rowStarts (zeros np numRows numCols)))"

definition compute_symmetric_inner_product_mat ::
  "util_module \<Rightarrow> ('v, 'd) float64_ops \<Rightarrow> ('h, 'f, 'v, 'w) field_operations \<Rightarrow> 'h arg
     \<Rightarrow> error + 'd mat" where
  "compute_symmetric_inner_product_mat util np self fieldArg =
     (let fieldPaths = as_list fieldArg
      in bindE (compute_upper_triangular_inner_product_chunk util np self
                  (Several fieldPaths) (Several fieldPaths)) (\<lambda>innerProductMat.
         mat_iadd np innerProductMat (transpose_mat (triu np innerProductMat 1))))"

subsection \<open>Linear combinations\<close>

text \<open>
  The arithmetic of the field class as \<open>lin_combine_chunk\<close> uses it: \<open>mul f c\<close> is the
  field \<open>f * c\<close> for a coefficient \<open>c\<close> read from the coefficient matrix, and \<open>iadd a b\<close> is
  the field that \<open>a\<close> is after \<open>a += b\<close>. The engines rely on the interface contract that
  the multiplication builds a new field and that the operations leave their other
  operands alone, so here an operation is its value; \<open>idiot_check\<close> below is the method
  that tests that contract and keeps the objects.
\<close>

record ('f, 'c) field_arith =
  mul :: "'f \<Rightarrow> 'c \<Rightarrow> 'f"
  iadd :: "'f \<Rightarrow> 'f \<Rightarrow> 'f"

text \<open>What a method did to storage, in order: the paths it loaded and the writes it made.\<close>

datatype ('h, 'w) event = Loaded 'h | Saved 'w

definition saves_of :: "('h, 'w) event list \<Rightarrow> 'w list" where
  "saves_of tr = concat (map (\<lambda>e. case e of Saved w \<Rightarrow> [w] | Loaded h \<Rightarrow> []) tr)"

text \<open>A \<open>for\<close> loop whose body may raise and also extends the trace of storage events.\<close>

fun foldIO :: "('a \<Rightarrow> 's \<Rightarrow> 't \<Rightarrow> (error + 's) \<times> 't) \<Rightarrow> 'a list \<Rightarrow> 's \<Rightarrow> 't \<Rightarrow> (error + 's) \<times> 't" where
  "foldIO f [] s t = (Inr s, t)"
| "foldIO f (x # xs) s t =
     (case f x s t of (Inl e, t') \<Rightarrow> (Inl e, t') | (Inr s', t') \<Rightarrow> foldIO f xs s' t')"

definition py_xrange :: "nat \<Rightarrow> nat \<Rightarrow> int \<Rightarrow> error + nat list" where
  "py_xrange start stop step =
     (if step = 0 then Inl (ValueError ''xrange() arg 3 must not be zero'')
      else py_range start stop step)"

text \<open>\<open>M[:, a:b]\<close> with \<open>0 \<le> a\<close> and \<open>0 \<le> b\<close>: the columns from a up to b, clamped to the width.\<close>

definition mat_col_slice :: "'c mat \<Rightarrow> nat \<Rightarrow> nat \<Rightarrow> 'c mat" where
  "mat_col_slice M a b = Mat (nrows M) (min b (ncols M) - a) (map (\<lambda>r. slice r a b) (rows_of M))"

text \<open>
  \<open>M[:, idxs]\<close> with a list of integer column indices: a negative index counts from the
  right, an index outside the width raises.
\<close>

definition mat_select_cols :: "'c mat \<Rightarrow> int list \<Rightarrow> error + 'c mat" where
  "mat_select_cols M idxs =
     (if list_all (\<lambda>k. - int (ncols M) \<le> k \<and> k < int (ncols M)) idxs
      then Inr (Mat (nrows M) (length idxs)
                 (map (\<lambda>r. map (\<lambda>k. r ! nat (if k < 0 then k + int (ncols M) else k)) idxs)
                      (rows_of M)))
      else Inl IndexError)"

text \<open>The chunk size both \<open>lin_combine\<close> and \<open>lin_combine_chunk\<close> compute for the inputs.\<close>

definition default_numInputsPerChunk :: "util_module \<Rightarrow> ('h, 'f, 'v, 'w) field_operations \<Rightarrow> int" where
  "default_numInputsPerChunk util self =
     (if maxFields self > getNumProcs util then getNumProcs util
      else max (maxFields self - getNumProcs util - 1) 1)"

text \<open>
  The body of the innermost loop of \<open>lin_combine_chunk\<close>: the scaled input starts the
  output layer when the list of layers does not reach the output index yet, and is added
  to the layer otherwise.
\<close>

definition accumulate ::
  "('f, 'c) field_arith \<Rightarrow> 'f list \<Rightarrow> 'c mat \<Rightarrow> nat \<Rightarrow> nat \<Rightarrow> nat \<Rightarrow> 'f list \<Rightarrow> error + 'f list" where
  "accumulate ar inputs fieldCoeffMat startInputIndex outputIndex inputIndex outputLayers =
     bindE (py_nth inputs (inputIndex - startInputIndex)) (\<lambda>inp.
     bindE (mat_get fieldCoeffMat inputIndex outputIndex) (\<lambda>c.
     let outputLayer = mul ar inp c
     in if outputIndex \<ge> length outputLayers
        then Inr (outputLayers @ [outputLayer])
        else Inr (outputLayers[outputIndex := iadd ar (outputLayers ! outputIndex) outputLayer])))"

text \<open>The two inner loops: every output index, and for each every input of the loaded chunk.\<close>

definition add_layers ::
  "('f, 'c) field_arith \<Rightarrow> 'f list \<Rightarrow> 'c mat \<Rightarrow> nat \<Rightarrow> nat \<Rightarrow> nat \<Rightarrow> 'f list \<Rightarrow> error + 'f list" where
  "add_layers ar inputs fieldCoeffMat startInputIndex endInputIndex numOutputs =
     foldE (\<lambda>outputIndex.
        foldE (accumulate ar inputs fieldCoeffMat startInputIndex outputIndex)
         [startInputIndex ..< endInputIndex])
      [0 ..< numOutputs]"

text \<open>
  The body of the loop of \<open>lin_combine_chunk\<close> over the input chunks: the chunk is loaded
  and its contribution is added to every output layer.
\<close>

definition input_chunk_step ::
  "('h, 'f, 'v, 'w) field_operations \<Rightarrow> ('f, 'c) field_arith \<Rightarrow> 'h list \<Rightarrow> 'c mat \<Rightarrow> int
     \<Rightarrow> nat \<Rightarrow> 'f list \<Rightarrow> ('h, 'w) event list \<Rightarrow> (error + 'f list) \<times> ('h, 'w) event list" where
  "input_chunk_step self ar inputFieldPaths fieldCoeffMat numInputsPerChunk
       startInputIndex outputLayers trace =
     (let numInputs = length inputFieldPaths;
          numOutputs = ncols fieldCoeffMat;
          endInputIndex = nat (min (int startInputIndex + numInputsPerChunk) (int numInputs));
          paths = slice inputFieldPaths startInputIndex endInputIndex;
          inputs = pool_map eval_func_tuple (map (Pair (load_field self)) paths)
      in (add_layers ar inputs fieldCoeffMat startInputIndex endInputIndex numOutputs outputLayers,
          trace @ map Loaded paths))"

definition lin_combine_chunk ::
  "util_module \<Rightarrow> ('h, 'f, 'v, 'w) field_operations \<Rightarrow> ('f, 'c) field_arith \<Rightarrow> 'h list \<Rightarrow> 'c mat
     \<Rightarrow> int option \<Rightarrow> ('h, 'w) event list \<Rightarrow> (error + 'f list) \<times> ('h, 'w) event list" where
  "lin_combine_chunk util self ar inputFieldPaths fieldCoeffMat numInputsPerChunkArg trace =
     (let numInputs = length inputFieldPaths
      in if nrows fieldCoeffMat \<noteq> numInputs then (Inl AssertionError, trace)
         else
         let numInputsPerChunk = (case numInputsPerChunkArg of
                                    None \<Rightarrow> default_numInputsPerChunk util self
                                  | Some n \<Rightarrow> n)
         in case py_xrange 0 numInputs numInputsPerChunk of
              Inl e \<Rightarrow> (Inl e, trace)
            | Inr inputStarts \<Rightarrow>
                foldIO (input_chunk_step self ar inputFieldPaths fieldCoeffMat numInputsPerChunk)
                  inputStarts [] trace)"

text \<open>
  The body of the loop of \<open>lin_combine\<close> over the output batches: the layers of the batch
  are computed from all inputs, then saved to the output paths of the batch.
\<close>

definition output_batch_step ::
  "util_module \<Rightarrow> ('h, 'f, 'v, 'w) field_operations \<Rightarrow> ('f, 'c) field_arith \<Rightarrow> ('f \<Rightarrow> 'h \<Rightarrow> 'w)
     \<Rightarrow> 'h list \<Rightarrow> 'h list \<Rightarrow> 'c mat \<Rightarrow> int \<Rightarrow> int
     \<Rightarrow> nat \<Rightarrow> unit \<Rightarrow> ('h, 'w) event list \<Rightarrow> (error + unit) \<times> ('h, 'w) event list" where
  "output_batch_step util self ar save outputFieldPaths inputFieldPaths fieldCoeffMat
       numInputsPerChunk numOutputsPerNode startOutputIndex u trace =
     (let numOutputFields = length outputFieldPaths;
          endOutputIndex = nat (min (int numOutputFields) (int startOutputIndex + numOutputsPerNode))
      in case lin_combine_chunk util self ar inputFieldPaths
                (mat_col_slice fieldCoeffMat startOutputIndex endOutputIndex)
                (Some numInputsPerChunk) trace of
           (Inl e, trace) \<Rightarrow> (Inl e, trace)
         | (Inr outputLayers, trace) \<Rightarrow>
             (Inr (),
              trace @ map Saved
                (pool_map eval_func_tuple
                   (map (Pair (\<lambda>(layer, path). save layer path))
                      (zip outputLayers
                         (slice outputFieldPaths startOutputIndex endOutputIndex))))))"

definition lin_combine ::
  "util_module \<Rightarrow> ('h, 'f, 'v, 'w) field_operations \<Rightarrow> ('f, 'c) field_arith \<Rightarrow> 'h arg \<Rightarrow> 'h arg
     \<Rightarrow> 'c mat \<Rightarrow> (error + unit) \<times> ('h, 'w) event list" where
  "lin_combine util self ar outputArg inputArg fieldCoeffMat =
     (case save_field self of
        None \<Rightarrow> (Inl (UndefinedError ''save_field is undefined''), [])
      | Some save \<Rightarrow>
        let outputFieldPaths = as_list outputArg;
            inputFieldPaths = as_list inputArg;
            numInputFields = length inputFieldPaths;
            numOutputFields = length outputFieldPaths
        in if numInputFields > nrows fieldCoeffMat
           then (Inl (ValueError ''coeff mat has fewer rows, %d, than num of input paths, %d''), [])
           else if numOutputFields > ncols fieldCoeffMat
           then (Inl (ValueError ''Coeff matrix has fewer cols than num of output paths''), [])
           else
           let numInputsPerChunk = default_numInputsPerChunk util self;
               numOutputsPerNode = maxFields self - numInputsPerChunk
           in case py_range 0 numOutputFields numOutputsPerNode of
                Inl e \<Rightarrow> (Inl e, [])
              | Inr outputStarts \<Rightarrow>
                  foldIO (output_batch_step util self ar save outputFieldPaths inputFieldPaths
                            fieldCoeffMat numInputsPerChunk numOutputsPerNode)
                    outputStarts () [])"

subsection \<open>Modes\<close>

text \<open>
  The names bound at the top level of the module: its imports and its one class. A global
  name that is neither bound there nor a builtin cannot be evaluated.
\<close>

definition module_globals :: "string list" where
  "module_globals =
     [''sys'', ''copy'', ''multiprocessing'', ''itertools'', ''util'', ''N'', ''T'', ''FieldOperations'']"

text \<open>
  \<open>raise UndefinedError(msg)\<close>, written with the bare name as in \<open>_compute_modes\<close>: the
  exception raised is the one the name resolves to, or the failure to resolve it.
\<close>

definition raise_bare_UndefinedError :: "string \<Rightarrow> error" where
  "raise_bare_UndefinedError msg =
     (if ''UndefinedError'' \<in> set module_globals then UndefinedError msg
      else NameError ''UndefinedError'')"

text \<open>The validation loop of \<open>_compute_modes\<close> over the requested mode numbers.\<close>

fun check_mode_numbers :: "int list \<Rightarrow> int \<Rightarrow> nat \<Rightarrow> error + unit" where
  "check_mode_numbers [] indexFrom numCols = Inr ()"
| "check_mode_numbers (modeNum # rest) indexFrom numCols =
     (if modeNum < indexFrom
      then Inl (ValueError ''Cannot compute if mode number is less than indexFrom'')
      else if modeNum - indexFrom \<ge> int numCols
      then Inl (ValueError (''Cannot compute if mode index is greater ''
             @ ''than number of columns in the build coefficient matrix''))
      else check_mode_numbers rest indexFrom numCols)"

text \<open>
  The validations of \<open>_compute_modes\<close>: the count of requested modes against the count
  of snapshots, then the loop over the mode numbers.
\<close>

definition validate_mode_request :: "int list \<Rightarrow> 'h list \<Rightarrow> 'c mat \<Rightarrow> int \<Rightarrow> error + unit" where
  "validate_mode_request modeNumList snapPaths fieldCoeffMat indexFrom =
     (let numModes = length modeNumList;
          numSnaps = length snapPaths
      in if numModes > numSnaps
         then Inl (ValueError ''cannot compute more modes than number of snapshots'')
         else check_mode_numbers modeNumList indexFrom (ncols fieldCoeffMat))"

text \<open>
  \<open>_compute_modes\<close>. The path template and Python's \<open>modePath % modeNum\<close> are the
  parameter \<open>fmt\<close>.
\<close>

definition compute_modes ::
  "util_module \<Rightarrow> ('h, 'f, 'v, 'w) field_operations \<Rightarrow> ('f, 'c) field_arith \<Rightarrow> ('p \<Rightarrow> int \<Rightarrow> 'h)
     \<Rightarrow> int arg \<Rightarrow> 'p \<Rightarrow> 'h arg \<Rightarrow> 'c mat \<Rightarrow> int \<Rightarrow> (error + unit) \<times> ('h, 'w) event list" where
  "compute_modes util self ar fmt modeNumArg modePath snapArg fieldCoeffMat indexFrom =
     (case save_field self of
        None \<Rightarrow> (Inl (raise_bare_UndefinedError ''save_field is undefined''), [])
      | Some save \<Rightarrow>
        let modeNumList = as_list modeNumArg;
            snapPaths = as_list snapArg
        in case validate_mode_request modeNumList snapPaths fieldCoeffMat indexFrom of
             Inl e \<Rightarrow> (Inl e, [])
           | Inr u \<Rightarrow>
               let modeNumListFromZero = map (\<lambda>modeNum. modeNum - indexFrom) modeNumList
               in case mat_select_cols fieldCoeffMat modeNumListFromZero of
                    Inl e \<Rightarrow> (Inl e, [])
                  | Inr fieldCoeffMatReordered \<Rightarrow>
                      let modePaths = map (fmt modePath) modeNumList
                      in lin_combine util self ar (Several modePaths) (Several snapPaths)
                           fieldCoeffMatReordered)"

subsection \<open>Construction\<close>

text \<open>
  \<open>__init__\<close>: the pool is created first, and \<open>multiprocessing.Pool\<close> refuses a process
  count below one; \<open>maxFields\<close> defaults to 2. The load and inner product operations are
  taken as supplied; \<open>save_field\<close> may be \<open>None\<close>.
\<close>

definition FieldOperations_init ::
  "util_module \<Rightarrow> ('h \<Rightarrow> 'f) \<Rightarrow> ('f \<Rightarrow> 'h \<Rightarrow> 'w) option \<Rightarrow> ('f \<Rightarrow> 'f \<Rightarrow> 'v) \<Rightarrow> int option \<Rightarrow> bool
     \<Rightarrow> error + ('h, 'f, 'v, 'w) field_operations" where
  "FieldOperations_init util load_field_arg save_field_arg inner_product_arg maxFields_arg verbose_arg =
     (if getNumProcs util < 1 then Inl (ValueError ''Number of processes must be at least 1'')
      else Inr \<lparr>load_field = load_field_arg, save_field = save_field_arg,
                inner_product = inner_product_arg,
                maxFields = (case maxFields_arg of None \<Rightarrow> 2 | Some m \<Rightarrow> m),
                verbose = verbose_arg\<rparr>)"

subsection \<open>The self-test\<close>

text \<open>
  \<open>idiot_check\<close> asks whether the field class changes its operands, so here fields are
  objects in a store: a reference is an index into the list of object values, and the
  methods \<open>__mul__\<close> and \<open>__add__\<close> of the class under test take the store and return the
  reference of their result with the store they leave behind. Inner products are reals.
  The state also counts the inner products evaluated.
\<close>

record 'f field_class =
  mul_method :: "'f list \<Rightarrow> nat \<Rightarrow> real \<Rightarrow> nat \<times> 'f list"
  add_method :: "'f list \<Rightarrow> nat \<Rightarrow> nat \<Rightarrow> nat \<times> 'f list"

record 'f check_state =
  heap :: "'f list"
  ip_evals :: nat

text \<open>\<open>copy.deepcopy(obj)\<close>: a new object with the same value.\<close>

definition deepcopy :: "'f check_state \<Rightarrow> nat \<Rightarrow> nat \<times> 'f check_state" where
  "deepcopy st r = (length (heap st), st\<lparr>heap := heap st @ [heap st ! r]\<rparr>)"

definition call_mul :: "'f field_class \<Rightarrow> 'f check_state \<Rightarrow> nat \<Rightarrow> real \<Rightarrow> nat \<times> 'f check_state" where
  "call_mul cls st r c = (let (r', h') = mul_method cls (heap st) r c in (r', st\<lparr>heap := h'\<rparr>))"

definition call_add :: "'f field_class \<Rightarrow> 'f check_state \<Rightarrow> nat \<Rightarrow> nat \<Rightarrow> nat \<times> 'f check_state" where
  "call_add cls st a b = (let (r', h') = add_method cls (heap st) a b in (r', st\<lparr>heap := h'\<rparr>))"

definition call_inner_product ::
  "('h, 'f, real, 'w) field_operations \<Rightarrow> 'f check_state \<Rightarrow> nat \<Rightarrow> nat \<Rightarrow> real \<times> 'f check_state" where
  "call_inner_product self st a b =
     (inner_product self (heap st ! a) (heap st ! b), st\<lparr>ip_evals := ip_evals st + 1\<rparr>)"

definition idiot_check ::
  "('h, 'f, real, 'w) field_operations \<Rightarrow> 'f field_class \<Rightarrow> 'f check_state \<Rightarrow> nat option \<Rightarrow> 'h option
     \<Rightarrow> (error + unit) \<times> 'f check_state" where
  "idiot_check self cls st0 testObjArg testObjPath =
     (let tol = 1 / 10 ^ 10;
          (testObjOpt, st1) =
             (case testObjPath of
                Some p \<Rightarrow> (Some (length (heap st0)), st0\<lparr>heap := heap st0 @ [load_field self p]\<rparr>)
              | None \<Rightarrow> (testObjArg, st0))
      in case testObjOpt of
           None \<Rightarrow>
             (Inl (RuntimeError ''Supply a field object or a path to one for the idiot check''), st1)
         | Some testObj \<Rightarrow>
             let (objCopy, st2) = deepcopy st1 testObj;
                 (objCopyMag2, st3) = call_inner_product self st2 objCopy objCopy;
                 factor = 2;
                 (objMult, st4) = call_mul cls st3 testObj factor;
                 (ipMult, st5) = call_inner_product self st4 objMult objMult
             in if \<bar>ipMult - objCopyMag2 * factor ^ 2\<bar> > tol
                then (Inl (ValueError ''Multiplication of snap/mode object failed''), st5)
                else
                let (ipOrig, st6) = call_inner_product self st5 testObj testObj
                in if \<bar>ipOrig - objCopyMag2\<bar> > tol
                   then (Inl (ValueError ''Original object modified by multiplication''), st6)
                   else
                   let (objAdd, st7) = call_add cls st6 testObj testObj;
                       (ipAdd, st8) = call_inner_product self st7 objAdd objAdd
                   in if \<bar>ipAdd - objCopyMag2 * 4\<bar> > tol
                      then (Inl (ValueError ''Addition does not give correct result''), st8)
                      else
                      let (ipOrig, st9) = call_inner_product self st8 testObj testObj
                      in if \<bar>ipOrig - objCopyMag2\<bar> > tol
                         then (Inl (ValueError ''Original object modified by addition''), st9)
                         else
                         let (objScaled, st10) = call_mul cls st9 testObj factor;
                             (objAddMult, st11) = call_add cls st10 objScaled testObj;
                             (ipAddMult, st12) = call_inner_product self st11 objAddMult objAddMult
                         in if \<bar>ipAddMult - objCopyMag2 * (factor + 1) ^ 2\<bar> > tol
                            then (Inl (ValueError (''Multiplication and addition of snap/mode are ''
                                    @ ''inconsistent'')), st12)
                            else
                            let (ipOrig, st13) = call_inner_product self st12 testObj testObj
                            in if \<bar>ipOrig - objCopyMag2\<bar> > tol
                               then (Inl (ValueError ''Original object modified by combo of mult/add''),
                                     st13)
                               else (Inr (), st13))"

section \<open>Proof devices\<close>

text \<open>The matrix whose entry at row i, column j is \<open>g i j\<close>.\<close>

definition tabulate :: "nat \<Rightarrow> nat \<Rightarrow> (nat \<Rightarrow> nat \<Rightarrow> 'v) \<Rightarrow> 'v mat" where
  "tabulate nr nc g = Mat nr nc (map (\<lambda>i. map (g i) [0 ..< nc]) [0 ..< nr])"

text \<open>
  A step fills the region \<open>S\<close> of an \<open>nr\<close> by \<open>nc\<close> matrix from \<open>g\<close>: it never raises,
  keeps the shape, writes \<open>g i j\<close> at every index pair of \<open>S\<close> and leaves the rest alone.
\<close>

definition fills ::
  "('v mat \<Rightarrow> error + 'v mat) \<Rightarrow> nat \<Rightarrow> nat \<Rightarrow> (nat \<times> nat) set \<Rightarrow> (nat \<Rightarrow> nat \<Rightarrow> 'v) \<Rightarrow> bool" where
  "fills step nr nc S g \<longleftrightarrow>
     (\<forall>M. wf_mat M \<and> nrows M = nr \<and> ncols M = nc \<longrightarrow>
        (\<exists>M'. step M = Inr M' \<and> wf_mat M' \<and> nrows M' = nr \<and> ncols M' = nc \<and>
           (\<forall>i<nr. \<forall>j<nc. entry M' i j = (if (i, j) \<in> S then g i j else entry M i j))))"

text \<open>The inner product of the i-th field of one list with the j-th field of another.\<close>

definition ip_at ::
  "('h, 'f, 'v, 'w) field_operations \<Rightarrow> 'h list \<Rightarrow> 'h list \<Rightarrow> nat \<Rightarrow> nat \<Rightarrow> 'v" where
  "ip_at self R C i j = inner_product self (load_field self (R ! i)) (load_field self (C ! j))"

text \<open>
  Every inner product of a field loaded from the first list with a field loaded from the
  second can be stored as float64, and the float64 stored for the pair at indices i, j.
\<close>

definition storable ::
  "('v, 'd) float64_ops \<Rightarrow> ('h, 'f, 'v, 'w) field_operations \<Rightarrow> 'h list \<Rightarrow> 'h list \<Rightarrow> bool" where
  "storable np self A B \<longleftrightarrow>
     list_all (\<lambda>a. list_all (\<lambda>b.
        \<not> isl (to_float64 np (inner_product self (load_field self a) (load_field self b)))) B) A"

definition stored_at ::
  "('v, 'd) float64_ops \<Rightarrow> ('h, 'f, 'v, 'w) field_operations \<Rightarrow> 'h list \<Rightarrow> 'h list \<Rightarrow> nat \<Rightarrow> nat \<Rightarrow> 'd" where
  "stored_at np self R C i j = projr (to_float64 np (ip_at self R C i j))"

text \<open>Column k of a matrix, top to bottom.\<close>

definition mat_col :: "'c mat \<Rightarrow> nat \<Rightarrow> 'c list" where
  "mat_col M k = map (\<lambda>r. r ! k) (rows_of M)"

text \<open>
  The direct weighted sum of at least one field: the first scaled field, then every
  further scaled field added in index order.
\<close>

definition weighted_sum :: "('f, 'c) field_arith \<Rightarrow> 'f list \<Rightarrow> 'c list \<Rightarrow> 'f" where
  "weighted_sum ar fs cs =
     foldl (iadd ar) (mul ar (hd fs) (hd cs)) (map (\<lambda>(f, c). mul ar f c) (zip (tl fs) (tl cs)))"

text \<open>The output layer for column k once the inputs below index e have been added.\<close>

definition layer_upto :: "('f, 'c) field_arith \<Rightarrow> 'f list \<Rightarrow> 'c mat \<Rightarrow> nat \<Rightarrow> nat \<Rightarrow> 'f" where
  "layer_upto ar fs M k e =
     foldl (iadd ar) (mul ar (fs ! 0) (entry M 0 k)) (map (\<lambda>i. mul ar (fs ! i) (entry M i k)) [1 ..< e])"

text \<open>All output layers once the inputs below index e have been added; none before the first.\<close>

definition layers_upto :: "('f, 'c) field_arith \<Rightarrow> 'f list \<Rightarrow> 'c mat \<Rightarrow> nat \<Rightarrow> 'f list" where
  "layers_upto ar fs M e = (if e = 0 then [] else map (\<lambda>k. layer_upto ar fs M k e) [0 ..< ncols M])"

text \<open>
  What one output batch of \<open>lin_combine\<close> does to storage: every input is loaded, then the
  outputs of the batch (indices from \<open>b * s\<close>, at most \<open>s\<close> of them) are saved.
\<close>

definition batch_trace ::
  "('h, 'f, 'v, 'w) field_operations \<Rightarrow> ('f, 'c) field_arith \<Rightarrow> ('f \<Rightarrow> 'h \<Rightarrow> 'w) \<Rightarrow> 'h list \<Rightarrow> 'h list
     \<Rightarrow> 'c mat \<Rightarrow> nat \<Rightarrow> nat \<Rightarrow> ('h, 'w) event list" where
  "batch_trace self ar save Os I M s b =
     map Loaded I
     @ map Saved (map (\<lambda>k. save (layer_upto ar (map (load_field self) I) M k (length I)) (Os ! k))
                    [b * s ..< min (length Os) (b * s + s)])"

section \<open>A small instance\<close>

text \<open>
  Python scalars an inner product may return, and numpy's float64 for them. A float is
  modelled by the real number it denotes; an integer is rounded to 53 significant bits,
  ties to even, and raises when the rounded value does not fit a double; a complex number
  cannot be stored. Addition is that of the reals, which is what float64 addition gives
  whenever the sum is a float64, as it is when one operand is zero.
\<close>

datatype scalar = PyFloat real | PyInt int | PyComplex complex

function bit_length :: "int \<Rightarrow> nat" where
  "bit_length n = (if n \<le> 0 then 0 else Suc (bit_length (n div 2)))"
  by pat_completeness auto
termination
  by (relation "measure nat") auto

declare bit_length.simps [simp del]

definition int_to_float64 :: "int \<Rightarrow> error + real" where
  "int_to_float64 n =
     (let a = \<bar>n\<bar>; b = bit_length a
      in if b \<le> 53 then Inr (real_of_int n)
         else
         let q = 2 ^ (b - 53);
             m = a div q;
             r = a mod q;
             m' = (if 2 * r > q \<or> (2 * r = q \<and> odd m) then m + 1 else m);
             v = m' * q
         in if v \<ge> 2 ^ 1024 then Inl OverflowError
            else Inr (if n < 0 then - real_of_int v else real_of_int v))"

definition numpy_float64 :: "(scalar, real) float64_ops" where
  "numpy_float64 =
     \<lparr>to_float64 = (\<lambda>v. case v of PyFloat x \<Rightarrow> Inr x
                               | PyInt n \<Rightarrow> int_to_float64 n
                               | PyComplex z \<Rightarrow> Inl TypeError),
      zero64 = 0,
      add64 = (\<lambda>x y. x + y)\<rparr>"

text \<open>
  A chunk sizer with one row per chunk, a facade over two-component fields with the dot
  product as inner product, and the same facade with a bilinear form that is not
  symmetric.
\<close>

definition example_util :: util_module where
  "example_util = \<lparr>getNumProcs = 2, find_numRows_numCols_per_chunk = (\<lambda>B. (1, max 1 (B - 1)))\<rparr>"

definition dot_ops :: "(int, real \<times> real, scalar, int \<times> (real \<times> real)) field_operations" where
  "dot_ops = \<lparr>load_field = (\<lambda>h. (real_of_int h, 1)),
              save_field = Some (\<lambda>f h. (h, f)),
              inner_product = (\<lambda>a b. PyFloat (fst a * fst b + snd a * snd b)),
              maxFields = 2, verbose = False\<rparr>"

text \<open>The arithmetic of the two-component fields, and a path template that adds.\<close>

definition pair_arith :: "(real \<times> real, real) field_arith" where
  "pair_arith = \<lparr>mul = (\<lambda>f c. (fst f * c, snd f * c)),
                 iadd = (\<lambda>a b. (fst a + fst b, snd a + snd b))\<rparr>"

definition plus_fmt :: "int \<Rightarrow> int \<Rightarrow> int" where
  "plus_fmt modePath modeNum = modePath + modeNum"

definition skew_ops :: "(int, real \<times> real, scalar, int \<times> (real \<times> real)) field_operations" where
  "skew_ops = dot_ops\<lparr>inner_product := (\<lambda>a b. PyFloat (fst a * snd b))\<rparr>"


section \<open>Matrices and filling steps\<close>

lemma wf_mat_nth: "wf_mat M \<Longrightarrow> i < nrows M \<Longrightarrow> length (rows_of M ! i) = ncols M"
  by (simp add: wf_mat_def list_all_length)

lemma fills_mat_set:
  fixes np :: "('v, 'd) float64_ops"
  assumes "i < nr" "j < nc" "to_float64 np v = Inr (g i j)"
  shows "fills (\<lambda>M. mat_set np M i j v) nr nc {(i, j)} g"
  unfolding fills_def
proof (intro allI impI)
  fix M :: "'d mat"
  assume M: "wf_mat M \<and> nrows M = nr \<and> ncols M = nc"
  let ?M' = "Mat nr nc ((rows_of M)[i := (rows_of M ! i)[j := g i j]])"
  have 1: "mat_set np M i j v = Inr ?M'" using M assms by (simp add: mat_set_def bindE_def)
  have 2: "wf_mat ?M'" using M assms
    by (auto simp: wf_mat_def list_all_length nth_list_update)
  have 3: "\<forall>i'<nr. \<forall>j'<nc. entry ?M' i' j' = (if (i', j') \<in> {(i, j)} then g i' j' else entry M i' j')"
    using M assms by (auto simp: entry_def wf_mat_def list_all_length nth_list_update)
  show "\<exists>M'. mat_set np M i j v = Inr M' \<and> wf_mat M' \<and> nrows M' = nr \<and> ncols M' = nc \<and>
           (\<forall>i'<nr. \<forall>j'<nc. entry M' i' j' = (if (i', j') \<in> {(i, j)} then g i' j' else entry M i' j'))"
    using 1 2 3 by (intro exI[of _ ?M']) simp
qed

lemma fills_foldE:
  assumes "\<And>x. x \<in> set xs \<Longrightarrow> fills (f x) nr nc (R x) g"
  shows "fills (foldE f xs) nr nc (\<Union>x\<in>set xs. R x) g"
  using assms
proof (induction xs)
  case Nil
  then show ?case by (simp add: fills_def)
next
  case (Cons x xs)
  have hx: "fills (f x) nr nc (R x) g" using Cons.prems by simp
  have hxs: "fills (foldE f xs) nr nc (\<Union>x\<in>set xs. R x) g" using Cons by simp
  show ?case
    unfolding fills_def
  proof (intro allI impI)
    fix M :: "'b mat"
    assume M: "wf_mat M \<and> nrows M = nr \<and> ncols M = nc"
    from hx M obtain M1 where M1: "f x M = Inr M1" "wf_mat M1" "nrows M1 = nr" "ncols M1 = nc"
      "\<forall>i<nr. \<forall>j<nc. entry M1 i j = (if (i, j) \<in> R x then g i j else entry M i j)"
      unfolding fills_def by blast
    from hxs M1 obtain M2 where M2: "foldE f xs M1 = Inr M2" "wf_mat M2" "nrows M2 = nr" "ncols M2 = nc"
      "\<forall>i<nr. \<forall>j<nc. entry M2 i j = (if (i, j) \<in> (\<Union>x\<in>set xs. R x) then g i j else entry M1 i j)"
      unfolding fills_def by blast
    have "\<forall>i<nr. \<forall>j<nc. entry M2 i j = (if (i, j) \<in> (\<Union>x\<in>set (x # xs). R x) then g i j else entry M i j)"
      using M1(5) M2(5) by auto
    then show "\<exists>M'. foldE f (x # xs) M = Inr M' \<and> wf_mat M' \<and> nrows M' = nr \<and> ncols M' = nc \<and>
           (\<forall>i<nr. \<forall>j<nc. entry M' i j = (if (i, j) \<in> (\<Union>x\<in>set (x # xs). R x) then g i j else entry M i j))"
      using M1 M2 by simp
  qed
qed

lemma wf_zeros: "wf_mat (zeros np r c)"
  by (simp add: wf_mat_def zeros_def list_all_length)

lemma mat_eqI:
  assumes "wf_mat A" "wf_mat B" "nrows A = nrows B" "ncols A = ncols B"
    "\<And>i j. i < nrows A \<Longrightarrow> j < ncols A \<Longrightarrow> entry A i j = entry B i j"
  shows "A = B"
proof -
  have "rows_of A = rows_of B"
  proof (rule nth_equalityI)
    show "length (rows_of A) = length (rows_of B)" using assms by (simp add: wf_mat_def)
  next
    fix i assume i: "i < length (rows_of A)"
    then have iA: "i < nrows A" using assms by (simp add: wf_mat_def)
    have lA: "length (rows_of A ! i) = ncols A" using assms iA by (simp add: wf_mat_nth)
    have lB: "length (rows_of B ! i) = ncols A" using assms iA by (simp add: wf_mat_nth)
    show "rows_of A ! i = rows_of B ! i"
      using assms(5)[OF iA] lA lB by (intro nth_equalityI) (simp_all add: entry_def)
  qed
  then show ?thesis using assms by (simp add: mat.expand)
qed

lemma wf_tabulate: "wf_mat (tabulate nr nc g)"
  by (simp add: wf_mat_def tabulate_def list_all_length)

lemma entry_tabulate: "i < nr \<Longrightarrow> j < nc \<Longrightarrow> entry (tabulate nr nc g) i j = g i j"
  by (simp add: entry_def tabulate_def)

lemma nrows_zeros [simp]: "nrows (zeros np r c) = r"
  by (simp add: zeros_def)

lemma ncols_zeros [simp]: "ncols (zeros np r c) = c"
  by (simp add: zeros_def)

lemma fills_all_zeros:
  assumes "fills step nr nc S g"
  shows "step (zeros np nr nc)
           = Inr (tabulate nr nc (\<lambda>i j. if (i, j) \<in> S then g i j else zero64 np))"
proof -
  let ?T = "tabulate nr nc (\<lambda>i j. if (i, j) \<in> S then g i j else zero64 np)"
  have z: "wf_mat (zeros np nr nc) \<and> nrows (zeros np nr nc) = nr \<and> ncols (zeros np nr nc) = nc"
    by (simp add: wf_zeros)
  from assms z obtain M' where M': "step (zeros np nr nc) = Inr M'" "wf_mat M'" "nrows M' = nr" "ncols M' = nc"
    "\<forall>i<nr. \<forall>j<nc. entry M' i j = (if (i, j) \<in> S then g i j else entry (zeros np nr nc) i j)"
    unfolding fills_def by blast
  have ez: "\<And>i j. i < nr \<Longrightarrow> j < nc \<Longrightarrow> entry (zeros np nr nc) i j = zero64 np"
    by (simp add: entry_def zeros_def)
  have "M' = ?T"
  proof (rule mat_eqI)
    show "wf_mat M'" by (rule M'(2))
    show "wf_mat ?T" by (rule wf_tabulate)
    show "nrows M' = nrows ?T" using M'(3) by (simp add: tabulate_def)
    show "ncols M' = ncols ?T" using M'(4) by (simp add: tabulate_def)
    fix i j assume "i < nrows M'" "j < ncols M'"
    then have ij: "i < nr" "j < nc" using M' by simp_all
    show "entry M' i j = entry ?T i j"
      using M'(5) ij by (simp add: entry_tabulate ez)
  qed
  then show ?thesis using M' by simp
qed

lemma length_slice: "b \<le> length xs \<Longrightarrow> length (slice xs a b) = b - a"
  by (simp add: slice_def)

lemma nth_map_slice:
  "a \<le> i \<Longrightarrow> i < b \<Longrightarrow> b \<le> length xs \<Longrightarrow> map f (slice xs a b) ! (i - a) = f (xs ! i)"
  by (simp add: slice_def)

lemma fills_inner_product_block:
  assumes er: "er \<le> nr" and ec: "ec \<le> nc"
    and lr: "length rowSnaps = er - sr" and lc: "length colSnaps = ec - sc"
    and g: "\<And>i j. sr \<le> i \<Longrightarrow> i < er \<Longrightarrow> sc \<le> j \<Longrightarrow> j < ec \<Longrightarrow>
               to_float64 np (ip (rowSnaps ! (i - sr)) (colSnaps ! (j - sc))) = Inr (g i j)"
  shows "fills (inner_product_block np ip rowSnaps colSnaps sr er sc ec) nr nc
           ({sr ..< er} \<times> {sc ..< ec}) g"
proof -
  have row: "fills (foldE (\<lambda>colIndex innerProductMat.
           bindE (py_nth rowSnaps (i - sr)) (\<lambda>r.
           bindE (py_nth colSnaps (colIndex - sc)) (\<lambda>c.
           mat_set np innerProductMat i colIndex (ip r c)))) [sc ..< ec]) nr nc
          (\<Union>j\<in>set [sc ..< ec]. {(i, j)}) g" if i: "i \<in> set [sr ..< er]" for i
  proof (rule fills_foldE)
    fix j assume j: "j \<in> set [sc ..< ec]"
    have body: "(\<lambda>innerProductMat. bindE (py_nth rowSnaps (i - sr)) (\<lambda>r.
           bindE (py_nth colSnaps (j - sc)) (\<lambda>c. mat_set np innerProductMat i j (ip r c))))
        = (\<lambda>M. mat_set np M i j (ip (rowSnaps ! (i - sr)) (colSnaps ! (j - sc))))"
      using i j lr lc by (auto simp: bindE_def py_nth_def)
    show "fills (\<lambda>innerProductMat. bindE (py_nth rowSnaps (i - sr)) (\<lambda>r.
           bindE (py_nth colSnaps (j - sc)) (\<lambda>c. mat_set np innerProductMat i j (ip r c)))) nr nc {(i, j)} g"
      unfolding body using i j er ec g by (intro fills_mat_set) auto
  qed
  have "fills (inner_product_block np ip rowSnaps colSnaps sr er sc ec) nr nc
           (\<Union>i\<in>set [sr ..< er]. (\<Union>j\<in>set [sc ..< ec]. {(i, j)})) g"
    unfolding inner_product_block_def by (rule fills_foldE) (rule row)
  moreover have "(\<Union>i\<in>set [sr ..< er]. (\<Union>j\<in>set [sc ..< ec]. {(i, j)})) = {sr ..< er} \<times> {sc ..< ec}"
    by auto
  ultimately show ?thesis by simp
qed

lemma py_range_pos:
  "0 < step \<Longrightarrow>
   py_range a n step = Inr (map (\<lambda>k. a + k * nat step) [0 ..< (n - a + nat step - 1) div nat step])"
  by (simp add: py_range_def)

lemma chunk_end: "0 < step \<Longrightarrow> nat (min (int n) (int s + step)) = min n (s + nat step)"
  by (simp add: min_def) linarith

lemma chunks_cover:
  assumes "0 < (s::nat)"
  shows "(\<Union>k\<in>{0 ..< (n - a + s - 1) div s}. {a + k * s ..< min n (a + k * s + s)}) = {a ..< n}"
proof (intro equalityI subsetI)
  fix j assume "j \<in> (\<Union>k\<in>{0 ..< (n - a + s - 1) div s}. {a + k * s ..< min n (a + k * s + s)})"
  then show "j \<in> {a ..< n}" by auto
next
  fix j assume j: "j \<in> {a ..< n}"
  let ?k = "(j - a) div s"
  have "?k * s \<le> j - a" by simp
  moreover have "a \<le> j" using j by simp
  ultimately have 1: "a + ?k * s \<le> j" by linarith
  have "j - a < ?k * s + s" using assms
    by (metis add.commute mod_div_mult_eq mult.commute add_less_cancel_left mod_less_divisor)
  then have 2: "j < a + ?k * s + s" by simp
  have "j - a + s \<le> n - a + s - 1" using j by auto
  then have "(j - a + s) div s \<le> (n - a + s - 1) div s" by (rule div_le_mono)
  then have 3: "?k < (n - a + s - 1) div s" using assms by simp
  show "j \<in> (\<Union>k\<in>{0 ..< (n - a + s - 1) div s}. {a + k * s ..< min n (a + k * s + s)})"
    using 1 2 3 j by (intro UN_I[of ?k]) auto
qed



lemma mapE_Inr:
  assumes "\<And>x. x \<in> set xs \<Longrightarrow> f x = Inr (h x)"
  shows "mapE f xs = Inr (map h xs)"
  using assms by (induction xs) (simp_all add: bindE_def)

lemma mapE_map: "mapE f (map k xs) = mapE (\<lambda>x. f (k x)) xs"
  by (induction xs) simp_all

lemma storable_at:
  assumes "storable np self A B" "i < length A" "j < length B"
  shows "to_float64 np (ip_at self A B i j) = Inr (stored_at np self A B i j)"
proof -
  have "\<not> isl (to_float64 np (inner_product self (load_field self (A ! i)) (load_field self (B ! j))))"
    using assms by (simp add: storable_def list_all_length)
  then show ?thesis by (simp add: stored_at_def ip_at_def)
qed

lemma storable_mem:
  assumes "storable np self A B" "a \<in> set A" "b \<in> set B"
  shows "\<exists>d. to_float64 np (inner_product self (load_field self a) (load_field self b)) = Inr d"
proof -
  have "\<not> isl (to_float64 np (inner_product self (load_field self a) (load_field self b)))"
    using assms by (simp add: storable_def list_all_iff)
  then show ?thesis by (cases "to_float64 np (inner_product self (load_field self a) (load_field self b))") simp_all
qed

lemma pairwise_tabulate:
  assumes "storable np self R C"
  shows "pairwise_inner_products np self R C
           = Inr (tabulate (length R) (length C) (stored_at np self R C))"
proof -
  have inner: "mapE (\<lambda>c. to_float64 np (inner_product self (load_field self (R ! i)) c))
                 (map (load_field self) C)
             = Inr (map (stored_at np self R C i) [0 ..< length C])" if i: "i < length R" for i
  proof -
    have "mapE (\<lambda>j. to_float64 np (ip_at self R C i j)) [0 ..< length C]
        = Inr (map (stored_at np self R C i) [0 ..< length C])"
      using storable_at[OF assms i] by (intro mapE_Inr) simp
    moreover have "mapE (\<lambda>c. to_float64 np (inner_product self (load_field self (R ! i)) c))
                 (map (load_field self) C)
        = mapE (\<lambda>j. to_float64 np (ip_at self R C i j)) [0 ..< length C]"
    proof -
      have "map (load_field self) C = map (\<lambda>j. load_field self (C ! j)) [0 ..< length C]"
        by (intro nth_equalityI) simp_all
      then have "mapE (\<lambda>c. to_float64 np (inner_product self (load_field self (R ! i)) c))
                 (map (load_field self) C)
          = mapE (\<lambda>c. to_float64 np (inner_product self (load_field self (R ! i)) c))
                 (map (\<lambda>j. load_field self (C ! j)) [0 ..< length C])"
        by simp
      also have "\<dots> = mapE (\<lambda>j. to_float64 np (ip_at self R C i j)) [0 ..< length C]"
        by (simp only: mapE_map ip_at_def)
      finally show ?thesis .
    qed
    ultimately show ?thesis by simp
  qed
  have "mapE (\<lambda>r. mapE (\<lambda>c. to_float64 np (inner_product self r c)) (map (load_field self) C))
          (map (load_field self) R)
      = mapE (\<lambda>i. mapE (\<lambda>c. to_float64 np (inner_product self (load_field self (R ! i)) c))
                 (map (load_field self) C)) [0 ..< length R]"
  proof -
    have "map (load_field self) R = map (\<lambda>i. load_field self (R ! i)) [0 ..< length R]"
      by (intro nth_equalityI) simp_all
    then have "mapE (\<lambda>r. mapE (\<lambda>c. to_float64 np (inner_product self r c)) (map (load_field self) C))
          (map (load_field self) R)
        = mapE (\<lambda>r. mapE (\<lambda>c. to_float64 np (inner_product self r c)) (map (load_field self) C))
          (map (\<lambda>i. load_field self (R ! i)) [0 ..< length R])"
      by simp
    also have "\<dots> = mapE (\<lambda>i. mapE (\<lambda>c. to_float64 np (inner_product self (load_field self (R ! i)) c))
                 (map (load_field self) C)) [0 ..< length R]"
      by (simp only: mapE_map)
    finally show ?thesis .
  qed
  also have "\<dots> = Inr (map (\<lambda>i. map (stored_at np self R C i) [0 ..< length C]) [0 ..< length R])"
    using inner by (intro mapE_Inr) simp
  finally show ?thesis
    by (simp add: pairwise_inner_products_def tabulate_def Let_def bindE_def)
qed

lemma nth_slice: "a \<le> i \<Longrightarrow> i < b \<Longrightarrow> b \<le> length xs \<Longrightarrow> slice xs a b ! (i - a) = xs ! i"
  by (simp add: slice_def)

lemma fills_col_chunks:
  assumes cs: "0 < cs" and er: "er \<le> nr" and lr: "length rowSnaps = er - sr"
    and g: "\<And>i j. sr \<le> i \<Longrightarrow> i < er \<Longrightarrow> j < length C \<Longrightarrow>
              to_float64 np (ip (rowSnaps ! (i - sr)) (ld (C ! j))) = Inr (g i j)"
  shows "fills (\<lambda>M. bindE (py_range a (length C) cs) (\<lambda>colStarts.
           foldE (\<lambda>startColIndex innerProductMat.
              let endColIndex = nat (min (int (length C)) (int startColIndex + cs));
                  colSnaps = pool_map ld (slice C startColIndex endColIndex)
              in inner_product_block np ip rowSnaps colSnaps
                   sr er startColIndex endColIndex innerProductMat)
            colStarts M))
         nr (length C) ({sr ..< er} \<times> {a ..< length C}) g"
proof -
  let ?nc = "length C"
  let ?s = "nat cs"
  let ?starts = "map (\<lambda>k. a + k * ?s) [0 ..< (?nc - a + ?s - 1) div ?s]"
  let ?body = "\<lambda>startColIndex innerProductMat.
              let endColIndex = nat (min (int (length C)) (int startColIndex + cs));
                  colSnaps = pool_map ld (slice C startColIndex endColIndex)
              in inner_product_block np ip rowSnaps colSnaps
                   sr er startColIndex endColIndex innerProductMat"
  have s: "0 < ?s" using cs by simp
  have each: "fills (?body sc) nr ?nc ({sr ..< er} \<times> {sc ..< min ?nc (sc + ?s)}) g"
    for sc
  proof -
    have b: "?body sc = inner_product_block np ip rowSnaps
                   (pool_map ld (slice C sc (min ?nc (sc + ?s))))
                   sr er sc (min ?nc (sc + ?s))"
      using cs by (simp add: chunk_end Let_def)
    show ?thesis unfolding b
    proof (rule fills_inner_product_block)
      show "er \<le> nr" by (rule er)
      show "min ?nc (sc + ?s) \<le> ?nc" by simp
      show "length rowSnaps = er - sr" by (rule lr)
      show "length (pool_map ld (slice C sc (min ?nc (sc + ?s)))) = min ?nc (sc + ?s) - sc"
        by (simp add: pool_map_def length_slice)
      fix i j assume ij: "sr \<le> i" "i < er" "sc \<le> j" "j < min ?nc (sc + ?s)"
      have 2: "pool_map ld (slice C sc (min ?nc (sc + ?s))) ! (j - sc) = ld (C ! j)"
        unfolding pool_map_def using ij by (intro nth_map_slice) simp_all
      show "to_float64 np (ip (rowSnaps ! (i - sr))
             (pool_map ld (slice C sc (min ?nc (sc + ?s))) ! (j - sc))) = Inr (g i j)"
        unfolding 2 using ij by (intro g) simp_all
    qed
  qed
  have "fills (foldE ?body ?starts) nr ?nc
          (\<Union>sc\<in>set ?starts. {sr ..< er} \<times> {sc ..< min ?nc (sc + ?s)}) g"
    by (rule fills_foldE) (rule each)
  moreover have "(\<Union>sc\<in>set ?starts. {sr ..< er} \<times> {sc ..< min ?nc (sc + ?s)})
      = {sr ..< er} \<times> (\<Union>k\<in>{0 ..< (?nc - a + ?s - 1) div ?s}. {a + k * ?s ..< min ?nc (a + k * ?s + ?s)})"
    by auto
  moreover have "(\<lambda>M. bindE (py_range a ?nc cs) (\<lambda>colStarts. foldE ?body colStarts M))
      = foldE ?body ?starts"
    using cs by (simp add: py_range_pos bindE_def)
  ultimately show ?thesis by (simp only: chunks_cover[OF s])
qed

lemma row_start_lt:
  assumes "0 < (s::nat)" "sr \<in> set (map (\<lambda>k. a + k * s) [0 ..< (n - a + s - 1) div s])"
  shows "sr < n \<and> a \<le> sr"
proof -
  from assms obtain k where k: "k < (n - a + s - 1) div s" "sr = a + k * s" by auto
  have "k + 1 \<le> (n - a + s - 1) div s" using k(1) by simp
  then have "(k + 1) * s \<le> (n - a + s - 1) div s * s" by (rule mult_le_mono1)
  also have "\<dots> \<le> n - a + s - 1" by (rule div_times_less_eq_dividend)
  finally show ?thesis using k(2) assms(1) by simp
qed

lemma fills_row_chunks:
  assumes rs: "0 < rs" and cs: "0 < cs" and st: "storable np self R C"
  shows "fills (foldE (\<lambda>startRowIndex innerProductMat.
                  let endRowIndex = nat (min (int (length R)) (int startRowIndex + rs));
                      rowSnaps = pool_map (load_field self) (slice R startRowIndex endRowIndex)
                  in bindE (py_range 0 (length C) cs) (\<lambda>colStarts.
                     foldE (\<lambda>startColIndex innerProductMat.
                        let endColIndex = nat (min (int (length C)) (int startColIndex + cs));
                            colSnaps = pool_map (load_field self) (slice C startColIndex endColIndex)
                        in inner_product_block np (inner_product self) rowSnaps colSnaps
                             startRowIndex endRowIndex startColIndex endColIndex innerProductMat)
                      colStarts innerProductMat))
                (map (\<lambda>k. 0 + k * nat rs) [0 ..< (length R - 0 + nat rs - 1) div nat rs]))
         (length R) (length C) ({0 ..< length R} \<times> {0 ..< length C}) (stored_at np self R C)"
    (is "fills (foldE ?body ?starts) _ _ _ _")
proof -
  let ?nr = "length R"
  let ?s = "nat rs"
  have s: "0 < ?s" using rs by simp
  have each: "fills (?body sr) ?nr (length C) ({sr ..< min ?nr (sr + ?s)} \<times> {0 ..< length C})
                (stored_at np self R C)"
    if "sr \<in> set ?starts" for sr
  proof -
    have lt: "sr < ?nr" using row_start_lt[OF s that] by simp
    have "fills (\<lambda>M. bindE (py_range 0 (length C) cs) (\<lambda>colStarts.
           foldE (\<lambda>startColIndex innerProductMat.
              let endColIndex = nat (min (int (length C)) (int startColIndex + cs));
                  colSnaps = pool_map (load_field self) (slice C startColIndex endColIndex)
              in inner_product_block np (inner_product self)
                   (pool_map (load_field self) (slice R sr (min ?nr (sr + ?s)))) colSnaps
                   sr (min ?nr (sr + ?s)) startColIndex endColIndex innerProductMat)
            colStarts M))
         ?nr (length C) ({sr ..< min ?nr (sr + ?s)} \<times> {0 ..< length C}) (stored_at np self R C)"
    proof (rule fills_col_chunks[OF cs])
      show "min ?nr (sr + ?s) \<le> ?nr" by simp
      show "length (pool_map (load_field self) (slice R sr (min ?nr (sr + ?s)))) = min ?nr (sr + ?s) - sr"
        by (simp add: pool_map_def length_slice)
      fix i j assume ij: "sr \<le> i" "i < min ?nr (sr + ?s)" "j < length C"
      have 1: "pool_map (load_field self) (slice R sr (min ?nr (sr + ?s))) ! (i - sr) = load_field self (R ! i)"
        unfolding pool_map_def using ij by (intro nth_map_slice) simp_all
      have "to_float64 np (ip_at self R C i j) = Inr (stored_at np self R C i j)"
        using st ij by (intro storable_at) simp_all
      then show "to_float64 np (inner_product self
              (pool_map (load_field self) (slice R sr (min ?nr (sr + ?s))) ! (i - sr)) (load_field self (C ! j)))
             = Inr (stored_at np self R C i j)"
        unfolding 1 by (simp add: ip_at_def)
    qed
    moreover have "?body sr = (\<lambda>M. bindE (py_range 0 (length C) cs) (\<lambda>colStarts.
           foldE (\<lambda>startColIndex innerProductMat.
              let endColIndex = nat (min (int (length C)) (int startColIndex + cs));
                  colSnaps = pool_map (load_field self) (slice C startColIndex endColIndex)
              in inner_product_block np (inner_product self)
                   (pool_map (load_field self) (slice R sr (min ?nr (sr + ?s)))) colSnaps
                   sr (min ?nr (sr + ?s)) startColIndex endColIndex innerProductMat)
            colStarts M))"
      using rs by (simp add: chunk_end Let_def)
    ultimately show ?thesis by simp
  qed
  have "fills (foldE ?body ?starts) ?nr (length C)
          (\<Union>sr\<in>set ?starts. {sr ..< min ?nr (sr + ?s)} \<times> {0 ..< length C}) (stored_at np self R C)"
    by (rule fills_foldE) (rule each)
  moreover have "(\<Union>sr\<in>set ?starts. {sr ..< min ?nr (sr + ?s)} \<times> {0 ..< length C})
      = (\<Union>k\<in>{0 ..< (?nr - 0 + ?s - 1) div ?s}. {0 + k * ?s ..< min ?nr (0 + k * ?s + ?s)}) \<times> {0 ..< length C}"
    by auto
  ultimately show ?thesis by (simp only: chunks_cover[OF s])
qed

lemma nrows_tabulate [simp]: "nrows (tabulate nr nc g) = nr"
  by (simp add: tabulate_def)

lemma ncols_tabulate [simp]: "ncols (tabulate nr nc g) = nc"
  by (simp add: tabulate_def)

lemma transpose_tabulate: "transpose_mat (tabulate nr nc g) = tabulate nc nr (\<lambda>i j. g j i)"
  by (simp add: transpose_mat_def tabulate_def entry_def)

lemma tabulate_cong:
  "(\<And>i j. i < nr \<Longrightarrow> j < nc \<Longrightarrow> g i j = g' i j) \<Longrightarrow> tabulate nr nc g = tabulate nr nc g'"
  by (simp add: tabulate_def)

lemma mat_get_tabulate: "i < nr \<Longrightarrow> j < nc \<Longrightarrow> mat_get (tabulate nr nc g) i j = Inr (g i j)"
  by (simp add: mat_get_def entry_tabulate)

lemma chunk_rows_le_cols:
  assumes sz: "find_numRows_numCols_per_chunk util (maxFields self) = (rs, cs)"
    and rs: "0 < rs" and cs: "0 < cs" and le: "length R \<le> length C"
    and st: "storable np self R C"
  shows "compute_inner_product_chunk util np self (Several R) (Several C)
           = Inr (tabulate (length R) (length C) (stored_at np self R C))"
proof -
  have "foldE (\<lambda>startRowIndex innerProductMat.
                  let endRowIndex = nat (min (int (length R)) (int startRowIndex + rs));
                      rowSnaps = pool_map (load_field self) (slice R startRowIndex endRowIndex)
                  in bindE (py_range 0 (length C) cs) (\<lambda>colStarts.
                     foldE (\<lambda>startColIndex innerProductMat.
                        let endColIndex = nat (min (int (length C)) (int startColIndex + cs));
                            colSnaps = pool_map (load_field self) (slice C startColIndex endColIndex)
                        in inner_product_block np (inner_product self) rowSnaps colSnaps
                             startRowIndex endRowIndex startColIndex endColIndex innerProductMat)
                      colStarts innerProductMat))
                (map (\<lambda>k. 0 + k * nat rs) [0 ..< (length R - 0 + nat rs - 1) div nat rs])
                (zeros np (length R) (length C))
        = Inr (tabulate (length R) (length C)
                (\<lambda>i j. if (i, j) \<in> {0 ..< length R} \<times> {0 ..< length C}
                        then stored_at np self R C i j else zero64 np))"
    by (rule fills_all_zeros[OF fills_row_chunks[OF rs cs st]])
  moreover have "tabulate (length R) (length C)
                (\<lambda>i j. if (i, j) \<in> {0 ..< length R} \<times> {0 ..< length C}
                        then stored_at np self R C i j else zero64 np)
       = tabulate (length R) (length C) (stored_at np self R C)"
    by (rule tabulate_cong) simp
  ultimately show ?thesis
    using sz rs le by (simp add: compute_inner_product_chunk_def py_range_pos bindE_def)
qed

lemma all_in_memory_tabulate:
  assumes "storable np self R C" "storable np self C R"
  shows "all_in_memory_inner_product_mat np self R C
     = Inr (tabulate (length R) (length C)
         (\<lambda>i j. if length R \<le> length C then stored_at np self R C i j else stored_at np self C R j i))"
  using assms
  by (simp add: all_in_memory_inner_product_mat_def pairwise_tabulate transpose_tabulate bindE_def)

lemma compute_inner_product_mat_all_in_memory:
  assumes sz: "find_numRows_numCols_per_chunk util (maxFields self) = (rs, cs)"
    and rs: "0 < rs" and cs: "0 < cs"
    and st: "storable np self R C" "storable np self C R"
  shows "compute_inner_product_mat util np self (Several R) (Several C)
           = all_in_memory_inner_product_mat np self R C"
proof (cases "length R > length C")
  case True
  then have "compute_inner_product_chunk util np self (Several C) (Several R)
           = Inr (tabulate (length C) (length R) (stored_at np self C R))"
    using st by (intro chunk_rows_le_cols[OF sz rs cs]) simp_all
  then show ?thesis using True st
    by (simp add: compute_inner_product_mat_def bindE_def all_in_memory_inner_product_mat_def
          pairwise_tabulate transpose_tabulate)
next
  case False
  then have "compute_inner_product_chunk util np self (Several R) (Several C)
           = Inr (tabulate (length R) (length C) (stored_at np self R C))"
    using st by (intro chunk_rows_le_cols[OF sz rs cs]) simp_all
  then show ?thesis using False st
    by (simp add: compute_inner_product_mat_def bindE_def all_in_memory_inner_product_mat_def
          pairwise_tabulate)
qed

lemma pool_map_eval_func_tuple: "pool_map eval_func_tuple (map (Pair f) xs) = pool_map f xs"
  by (simp add: pool_map_def eval_func_tuple_def)

lemma fills_bindE:
  assumes f: "fills f nr nc S1 g" and h: "fills h nr nc S2 g"
  shows "fills (\<lambda>M. bindE (f M) h) nr nc (S1 \<union> S2) g"
  unfolding fills_def
proof (intro allI impI)
  fix M :: "'a mat"
  assume M: "wf_mat M \<and> nrows M = nr \<and> ncols M = nc"
  from f M obtain M1 where M1: "f M = Inr M1" "wf_mat M1" "nrows M1 = nr" "ncols M1 = nc"
    "\<forall>i<nr. \<forall>j<nc. entry M1 i j = (if (i, j) \<in> S1 then g i j else entry M i j)"
    unfolding fills_def by blast
  from h M1 obtain M2 where M2: "h M1 = Inr M2" "wf_mat M2" "nrows M2 = nr" "ncols M2 = nc"
    "\<forall>i<nr. \<forall>j<nc. entry M2 i j = (if (i, j) \<in> S2 then g i j else entry M1 i j)"
    unfolding fills_def by blast
  have "\<forall>i<nr. \<forall>j<nc. entry M2 i j = (if (i, j) \<in> S1 \<union> S2 then g i j else entry M i j)"
    using M1(5) M2(5) by auto
  then show "\<exists>M'. bindE (f M) h = Inr M' \<and> wf_mat M' \<and> nrows M' = nr \<and> ncols M' = nc \<and>
           (\<forall>i<nr. \<forall>j<nc. entry M' i j = (if (i, j) \<in> S1 \<union> S2 then g i j else entry M i j))"
    using M1 M2 by (simp add: bindE_def)
qed

lemma fills_upper_triangle_block:
  assumes er: "er \<le> nr" and ernc: "er \<le> nc" and lr: "length rowFields = er - sr"
    and g: "\<And>i j. sr \<le> i \<Longrightarrow> i \<le> j \<Longrightarrow> j < er \<Longrightarrow>
               to_float64 np (ip (rowFields ! (i - sr)) (rowFields ! (j - sr))) = Inr (g i j)"
  shows "fills (upper_triangle_block np ip rowFields sr er) nr nc
           {(i, j). sr \<le> i \<and> i \<le> j \<and> j < er} g"
proof -
  have row: "fills (\<lambda>innerProductMatChunk.
        bindE (py_nth rowFields (i - sr)) (\<lambda>r.
        bindE (mat_set np innerProductMatChunk i i (ip r r)) (\<lambda>innerProductMatChunk.
        foldE (\<lambda>colIndex innerProductMatChunk.
           bindE (py_nth rowFields (i - sr)) (\<lambda>r.
           bindE (py_nth rowFields (colIndex - sr)) (\<lambda>c.
           mat_set np innerProductMatChunk i colIndex (ip r c))))
         [i + 1 ..< er] innerProductMatChunk))) nr nc
       ({(i, i)} \<union> (\<Union>j\<in>set [i + 1 ..< er]. {(i, j)})) g" if i: "i \<in> set [sr ..< er]" for i
  proof -
    have off: "fills (foldE (\<lambda>colIndex innerProductMatChunk.
           bindE (py_nth rowFields (i - sr)) (\<lambda>r.
           bindE (py_nth rowFields (colIndex - sr)) (\<lambda>c.
           mat_set np innerProductMatChunk i colIndex (ip r c))))
         [i + 1 ..< er]) nr nc (\<Union>j\<in>set [i + 1 ..< er]. {(i, j)}) g"
    proof (rule fills_foldE)
      fix j assume j: "j \<in> set [i + 1 ..< er]"
      have body: "(\<lambda>innerProductMatChunk. bindE (py_nth rowFields (i - sr)) (\<lambda>r.
           bindE (py_nth rowFields (j - sr)) (\<lambda>c. mat_set np innerProductMatChunk i j (ip r c))))
        = (\<lambda>M. mat_set np M i j (ip (rowFields ! (i - sr)) (rowFields ! (j - sr))))"
        using i j lr by (auto simp: bindE_def py_nth_def)
      show "fills (\<lambda>innerProductMatChunk. bindE (py_nth rowFields (i - sr)) (\<lambda>r.
           bindE (py_nth rowFields (j - sr)) (\<lambda>c. mat_set np innerProductMatChunk i j (ip r c)))) nr nc {(i, j)} g"
        unfolding body using i j er ernc g by (intro fills_mat_set) auto
    qed
    have diag: "fills (\<lambda>M. mat_set np M i i (ip (rowFields ! (i - sr)) (rowFields ! (i - sr)))) nr nc {(i, i)} g"
      using i er ernc g by (intro fills_mat_set) auto
    have "(\<lambda>innerProductMatChunk.
        bindE (py_nth rowFields (i - sr)) (\<lambda>r.
        bindE (mat_set np innerProductMatChunk i i (ip r r)) (\<lambda>innerProductMatChunk.
        foldE (\<lambda>colIndex innerProductMatChunk.
           bindE (py_nth rowFields (i - sr)) (\<lambda>r.
           bindE (py_nth rowFields (colIndex - sr)) (\<lambda>c.
           mat_set np innerProductMatChunk i colIndex (ip r c))))
         [i + 1 ..< er] innerProductMatChunk)))
      = (\<lambda>M. bindE (mat_set np M i i (ip (rowFields ! (i - sr)) (rowFields ! (i - sr))))
           (foldE (\<lambda>colIndex innerProductMatChunk.
           bindE (py_nth rowFields (i - sr)) (\<lambda>r.
           bindE (py_nth rowFields (colIndex - sr)) (\<lambda>c.
           mat_set np innerProductMatChunk i colIndex (ip r c))))
         [i + 1 ..< er]))"
      using i lr by (auto simp: bindE_def py_nth_def)
    then show ?thesis using fills_bindE[OF diag off] by simp
  qed
  have "fills (upper_triangle_block np ip rowFields sr er) nr nc
           (\<Union>i\<in>set [sr ..< er]. {(i, i)} \<union> (\<Union>j\<in>set [i + 1 ..< er]. {(i, j)})) g"
    unfolding upper_triangle_block_def by (rule fills_foldE) (rule row)
  moreover have "(\<Union>i\<in>set [sr ..< er]. {(i, i)} \<union> (\<Union>j\<in>set [i + 1 ..< er]. {(i, j)}))
      = {(i, j). sr \<le> i \<and> i \<le> j \<and> j < er}"
  proof (intro equalityI subsetI)
    fix p assume "p \<in> (\<Union>i\<in>set [sr ..< er]. {(i, i)} \<union> (\<Union>j\<in>set [i + 1 ..< er]. {(i, j)}))"
    then show "p \<in> {(i, j). sr \<le> i \<and> i \<le> j \<and> j < er}" by auto
  next
    fix p assume "p \<in> {(i, j). sr \<le> i \<and> i \<le> j \<and> j < er}"
    then obtain i j where p: "p = (i, j)" "sr \<le> i" "i \<le> j" "j < er" by auto
    then have "i \<in> set [sr ..< er]" by simp
    moreover have "p \<in> {(i, i)} \<union> (\<Union>j\<in>set [i + 1 ..< er]. {(i, j)})"
      using p by (cases "i = j") auto
    ultimately show "p \<in> (\<Union>i\<in>set [sr ..< er]. {(i, i)} \<union> (\<Union>j\<in>set [i + 1 ..< er]. {(i, j)}))"
      by blast
  qed
  ultimately show ?thesis by simp
qed

lemma fills_upper_row_chunks:
  assumes rs: "0 < rs" and cs: "0 < cs" and pre: "R = slice C 0 (length R)"
    and st: "storable np self C C"
  shows "fills (foldE (\<lambda>startRowIndex innerProductMatChunk.
               let endRowIndex = nat (min (int (length R)) (int startRowIndex + rs));
                   rowFields = pool_map eval_func_tuple
                     (map (Pair (load_field self)) (slice R startRowIndex endRowIndex))
               in bindE (upper_triangle_block np (inner_product self) rowFields
                           startRowIndex endRowIndex innerProductMatChunk) (\<lambda>innerProductMatChunk.
                  if cs \<noteq> 0
                  then bindE (py_range endRowIndex (length C) cs) (\<lambda>colStarts.
                       foldE (\<lambda>startColIndex innerProductMatChunk.
                          let endColIndex = nat (min (int (length C)) (int startColIndex + cs));
                              colFields = pool_map eval_func_tuple
                                (map (Pair (load_field self)) (slice C startColIndex endColIndex))
                          in inner_product_block np (inner_product self) rowFields colFields
                               startRowIndex endRowIndex startColIndex endColIndex innerProductMatChunk)
                        colStarts innerProductMatChunk)
                  else Inr innerProductMatChunk))
             (map (\<lambda>k. 0 + k * nat rs) [0 ..< (length R - 0 + nat rs - 1) div nat rs]))
         (length R) (length C) {(i, j). i < length R \<and> i \<le> j \<and> j < length C} (stored_at np self C C)"
    (is "fills (foldE ?body ?starts) _ _ _ _")
proof -
  let ?nr = "length R"
  let ?nc = "length C"
  let ?s = "nat rs"
  have s: "0 < ?s" using rs by simp
  have le: "?nr \<le> ?nc"
  proof -
    have "length R = length (slice C 0 (length R))" using pre by simp
    then show ?thesis by (simp add: slice_def)
  qed
  have RC: "R ! i = C ! i" if "i < ?nr" for i
  proof -
    have "R ! i = slice C 0 ?nr ! i" using pre by simp
    then show ?thesis using that by (simp add: slice_def)
  qed
  have each: "fills (?body sr) ?nr ?nc
                ({(i, j). sr \<le> i \<and> i \<le> j \<and> j < min ?nr (sr + ?s)}
                 \<union> {sr ..< min ?nr (sr + ?s)} \<times> {min ?nr (sr + ?s) ..< ?nc}) (stored_at np self C C)"
    if "sr \<in> set ?starts" for sr
  proof -
    let ?er = "min ?nr (sr + ?s)"
    let ?rowFields = "pool_map (load_field self) (slice R sr ?er)"
    have lt: "sr < ?nr" using row_start_lt[OF s that] by simp
    have len: "length ?rowFields = ?er - sr" by (simp add: pool_map_def length_slice)
    have nth: "?rowFields ! (i - sr) = load_field self (C ! i)" if "sr \<le> i" "i < ?er" for i
    proof -
      have "?rowFields ! (i - sr) = load_field self (R ! i)"
        unfolding pool_map_def using that by (intro nth_map_slice) simp_all
      then show ?thesis using that RC by simp
    qed
    have tri: "fills (upper_triangle_block np (inner_product self) ?rowFields sr ?er) ?nr ?nc
                 {(i, j). sr \<le> i \<and> i \<le> j \<and> j < ?er} (stored_at np self C C)"
    proof (rule fills_upper_triangle_block)
      show "?er \<le> ?nr" by simp
      show "?er \<le> ?nc" using le by simp
      show "length ?rowFields = ?er - sr" by (rule len)
      fix i j assume ij: "sr \<le> i" "i \<le> j" "j < ?er"
      then have "?rowFields ! (i - sr) = load_field self (C ! i)"
        and "?rowFields ! (j - sr) = load_field self (C ! j)"
        by (simp_all add: nth)
      moreover have "to_float64 np (ip_at self C C i j) = Inr (stored_at np self C C i j)"
        using st ij le by (intro storable_at) simp_all
      ultimately show "to_float64 np (inner_product self (?rowFields ! (i - sr)) (?rowFields ! (j - sr)))
                       = Inr (stored_at np self C C i j)"
        by (simp add: ip_at_def)
    qed
    have rect: "fills (\<lambda>M. bindE (py_range ?er ?nc cs) (\<lambda>colStarts.
           foldE (\<lambda>startColIndex innerProductMat.
              let endColIndex = nat (min (int ?nc) (int startColIndex + cs));
                  colSnaps = pool_map (load_field self) (slice C startColIndex endColIndex)
              in inner_product_block np (inner_product self) ?rowFields colSnaps
                   sr ?er startColIndex endColIndex innerProductMat)
            colStarts M))
         ?nr ?nc ({sr ..< ?er} \<times> {?er ..< ?nc}) (stored_at np self C C)"
    proof (rule fills_col_chunks[OF cs])
      show "?er \<le> ?nr" by simp
      show "length ?rowFields = ?er - sr" by (rule len)
      fix i j assume ij: "sr \<le> i" "i < ?er" "j < ?nc"
      have "to_float64 np (ip_at self C C i j) = Inr (stored_at np self C C i j)"
        using st ij le by (intro storable_at) simp_all
      then show "to_float64 np (inner_product self (?rowFields ! (i - sr)) (load_field self (C ! j)))
                 = Inr (stored_at np self C C i j)"
        using ij by (simp add: nth ip_at_def)
    qed
    have "?body sr = (\<lambda>M. bindE (upper_triangle_block np (inner_product self) ?rowFields sr ?er M)
            (\<lambda>M. bindE (py_range ?er ?nc cs) (\<lambda>colStarts.
           foldE (\<lambda>startColIndex innerProductMat.
              let endColIndex = nat (min (int ?nc) (int startColIndex + cs));
                  colSnaps = pool_map (load_field self) (slice C startColIndex endColIndex)
              in inner_product_block np (inner_product self) ?rowFields colSnaps
                   sr ?er startColIndex endColIndex innerProductMat)
            colStarts M)))"
      using rs cs by (simp add: chunk_end Let_def pool_map_eval_func_tuple)
    then show ?thesis using fills_bindE[OF tri rect] by simp
  qed
  have "fills (foldE ?body ?starts) ?nr ?nc
          (\<Union>sr\<in>set ?starts. {(i, j). sr \<le> i \<and> i \<le> j \<and> j < min ?nr (sr + ?s)}
                 \<union> {sr ..< min ?nr (sr + ?s)} \<times> {min ?nr (sr + ?s) ..< ?nc}) (stored_at np self C C)"
    by (rule fills_foldE) (rule each)
  moreover have "(\<Union>sr\<in>set ?starts. {(i, j). sr \<le> i \<and> i \<le> j \<and> j < min ?nr (sr + ?s)}
                 \<union> {sr ..< min ?nr (sr + ?s)} \<times> {min ?nr (sr + ?s) ..< ?nc})
        = {(i, j). i < ?nr \<and> i \<le> j \<and> j < ?nc}" (is "?L = ?U")
  proof (intro equalityI subsetI)
    fix p assume "p \<in> ?L"
    then obtain sr where sr: "sr \<in> set ?starts"
      and p: "p \<in> {(i, j). sr \<le> i \<and> i \<le> j \<and> j < min ?nr (sr + ?s)}
                 \<union> {sr ..< min ?nr (sr + ?s)} \<times> {min ?nr (sr + ?s) ..< ?nc}" by blast
    show "p \<in> ?U" using p le by auto
  next
    fix p assume "p \<in> ?U"
    then obtain i j where p: "p = (i, j)" "i < ?nr" "i \<le> j" "j < ?nc" by auto
    have "i \<in> {0 ..< ?nr}" using p by simp
    then have "i \<in> (\<Union>k\<in>{0 ..< (?nr - 0 + ?s - 1) div ?s}. {0 + k * ?s ..< min ?nr (0 + k * ?s + ?s)})"
      by (simp only: chunks_cover[OF s])
    then obtain k where k: "k \<in> {0 ..< (?nr - 0 + ?s - 1) div ?s}"
      "i \<in> {0 + k * ?s ..< min ?nr (0 + k * ?s + ?s)}" by blast
    let ?sr = "0 + k * ?s"
    have "?sr \<in> (\<lambda>k. 0 + k * ?s) ` set [0 ..< (?nr - 0 + ?s - 1) div ?s]"
      using k(1) by (intro imageI) simp
    then have "?sr \<in> set ?starts" by (simp only: set_map)
    moreover have "p \<in> {(i, j). ?sr \<le> i \<and> i \<le> j \<and> j < min ?nr (?sr + ?s)}
                 \<union> {?sr ..< min ?nr (?sr + ?s)} \<times> {min ?nr (?sr + ?s) ..< ?nc}"
      using p k(2) by (cases "j < min ?nr (?sr + ?s)") auto
    ultimately show "p \<in> ?L" by blast
  qed
  ultimately show ?thesis by simp
qed

lemma slice_0_length: "slice xs 0 (length xs) = xs"
  by (simp add: slice_def)

lemma upper_chunk_result:
  assumes sz: "find_numRows_numCols_per_chunk util (maxFields self) = (rs, cs)"
    and rs: "0 < rs" and cs: "0 < cs" and pre: "R = slice C 0 (length R)"
    and st: "storable np self C C"
  shows "compute_upper_triangular_inner_product_chunk util np self (Several R) (Several C)
           = Inr (tabulate (length R) (length C)
                   (\<lambda>i j. if i \<le> j then stored_at np self C C i j else zero64 np))"
proof -
  have "foldE (\<lambda>startRowIndex innerProductMatChunk.
               let endRowIndex = nat (min (int (length R)) (int startRowIndex + rs));
                   rowFields = pool_map eval_func_tuple
                     (map (Pair (load_field self)) (slice R startRowIndex endRowIndex))
               in bindE (upper_triangle_block np (inner_product self) rowFields
                           startRowIndex endRowIndex innerProductMatChunk) (\<lambda>innerProductMatChunk.
                  if cs \<noteq> 0
                  then bindE (py_range endRowIndex (length C) cs) (\<lambda>colStarts.
                       foldE (\<lambda>startColIndex innerProductMatChunk.
                          let endColIndex = nat (min (int (length C)) (int startColIndex + cs));
                              colFields = pool_map eval_func_tuple
                                (map (Pair (load_field self)) (slice C startColIndex endColIndex))
                          in inner_product_block np (inner_product self) rowFields colFields
                               startRowIndex endRowIndex startColIndex endColIndex innerProductMatChunk)
                        colStarts innerProductMatChunk)
                  else Inr innerProductMatChunk))
             (map (\<lambda>k. 0 + k * nat rs) [0 ..< (length R - 0 + nat rs - 1) div nat rs])
             (zeros np (length R) (length C))
        = Inr (tabulate (length R) (length C)
                (\<lambda>i j. if (i, j) \<in> {(i, j). i < length R \<and> i \<le> j \<and> j < length C}
                        then stored_at np self C C i j else zero64 np))"
    by (rule fills_all_zeros[OF fills_upper_row_chunks[OF rs cs pre st]])
  moreover have "tabulate (length R) (length C)
                (\<lambda>i j. if (i, j) \<in> {(i, j). i < length R \<and> i \<le> j \<and> j < length C}
                        then stored_at np self C C i j else zero64 np)
       = tabulate (length R) (length C) (\<lambda>i j. if i \<le> j then stored_at np self C C i j else zero64 np)"
    by (rule tabulate_cong) simp
  ultimately show ?thesis
    using sz rs pre by (simp add: compute_upper_triangular_inner_product_chunk_def py_range_pos bindE_def)
qed

lemma triu_tabulate:
  "triu np (tabulate nr nc g) k = tabulate nr nc (\<lambda>i j. if i + k \<le> j then g i j else zero64 np)"
  by (simp add: triu_def tabulate_def entry_def)

lemma mat_iadd_tabulate:
  "mat_iadd np (tabulate nr nc g) (tabulate nr nc g')
     = Inr (tabulate nr nc (\<lambda>i j. add64 np (g i j) (g' i j)))"
  by (simp add: mat_iadd_def tabulate_def entry_def)

lemma symmetric_result:
  assumes sz: "find_numRows_numCols_per_chunk util (maxFields self) = (rs, cs)"
    and rs: "0 < rs" and cs: "0 < cs"
    and st: "storable np self H H"
    and zr: "\<And>x. add64 np x (zero64 np) = x" and zl: "\<And>x. add64 np (zero64 np) x = x"
  shows "compute_symmetric_inner_product_mat util np self (Several H)
           = Inr (tabulate (length H) (length H)
                   (\<lambda>i j. if i \<le> j then stored_at np self H H i j else stored_at np self H H j i))"
proof -
  have up: "compute_upper_triangular_inner_product_chunk util np self (Several H) (Several H)
           = Inr (tabulate (length H) (length H)
                   (\<lambda>i j. if i \<le> j then stored_at np self H H i j else zero64 np))"
    by (rule upper_chunk_result[OF sz rs cs _ st]) (simp add: slice_0_length)
  have "tabulate (length H) (length H)
          (\<lambda>i j. add64 np (if i \<le> j then stored_at np self H H i j else zero64 np)
                (if j + 1 \<le> i then (if j \<le> i then stored_at np self H H j i else zero64 np)
                 else zero64 np))
      = tabulate (length H) (length H)
          (\<lambda>i j. if i \<le> j then stored_at np self H H i j else stored_at np self H H j i)"
    by (rule tabulate_cong) (auto simp: zr zl)
  then show ?thesis
    by (simp add: compute_symmetric_inner_product_mat_def up bindE_def triu_tabulate
          transpose_tabulate mat_iadd_tabulate)
qed


section \<open>Claims about the inner product matrices\<close>

lemma storable_float_ops:
  "storable numpy_float64 dot_ops A B" "storable numpy_float64 skew_ops A B"
  by (simp_all add: storable_def numpy_float64_def dot_ops_def skew_ops_def list_all_iff)

lemma example_sizer: "find_numRows_numCols_per_chunk example_util B = (1, max 1 (B - 1))"
  by (simp add: example_util_def)

text \<open>
  Claim C1, as amended. The matrix is a float64 matrix. With a chunk sizer that returns
  positive chunk sizes for the memory budget, and when every inner product of a row field
  and a column field (in either order) can be stored as float64,
  \<open>compute_inner_product_mat(R, C)\<close> returns a matrix of shape \<open>(len(R), len(C))\<close>. Its
  entry at row i, column j is the float64 stored for
  \<open>inner_product(load(R[i]), load(C[j]))\<close> when \<open>len(R) \<le> len(C)\<close>; when
  \<open>len(R) > len(C)\<close> the lists were exchanged before the inner products were taken, and
  the entry is the float64 stored for \<open>inner_product(load(C[j]), load(R[i]))\<close>. So for an
  inner product that is symmetric on the loaded fields the entry is the float64 stored for
  \<open>inner_product(load(R[i]), load(C[j]))\<close> in both orientations.
\<close>

theorem inner_product_mat_entries:
  assumes "find_numRows_numCols_per_chunk util (maxFields self) = (rs, cs)" and "0 < rs" and "0 < cs"
    and "storable np self R C" and "storable np self C R"
  shows "\<exists>M. compute_inner_product_mat util np self (Several R) (Several C) = Inr M
           \<and> nrows M = length R \<and> ncols M = length C
           \<and> (\<forall>i<length R. \<forall>j<length C.
                 mat_get M i j =
                   (if length R \<le> length C
                    then to_float64 np (inner_product self (load_field self (R ! i)) (load_field self (C ! j)))
                    else to_float64 np (inner_product self (load_field self (C ! j)) (load_field self (R ! i)))))
           \<and> ((\<forall>r\<in>set R. \<forall>c\<in>set C.
                  inner_product self (load_field self c) (load_field self r)
                    = inner_product self (load_field self r) (load_field self c))
                \<longrightarrow> (\<forall>i<length R. \<forall>j<length C.
                       mat_get M i j
                         = to_float64 np (inner_product self (load_field self (R ! i)) (load_field self (C ! j)))))"
proof -
  let ?M = "tabulate (length R) (length C)
         (\<lambda>i j. if length R \<le> length C then stored_at np self R C i j else stored_at np self C R j i)"
  have 1: "compute_inner_product_mat util np self (Several R) (Several C) = Inr ?M"
    using compute_inner_product_mat_all_in_memory[OF assms] all_in_memory_tabulate[OF assms(4,5)]
    by simp
  have 3: "mat_get ?M i j =
                   (if length R \<le> length C
                    then to_float64 np (inner_product self (load_field self (R ! i)) (load_field self (C ! j)))
                    else to_float64 np (inner_product self (load_field self (C ! j)) (load_field self (R ! i))))"
    if ij: "i < length R" "j < length C" for i j
  proof -
    have a: "to_float64 np (ip_at self R C i j) = Inr (stored_at np self R C i j)"
      using assms(4) ij by (rule storable_at)
    have b: "to_float64 np (ip_at self C R j i) = Inr (stored_at np self C R j i)"
      using assms(5) ij(2,1) by (rule storable_at)
    show ?thesis using ij a b by (simp add: mat_get_tabulate ip_at_def)
  qed
  have 4: "mat_get ?M i j
             = to_float64 np (inner_product self (load_field self (R ! i)) (load_field self (C ! j)))"
    if "i < length R" "j < length C"
      and sym: "\<forall>r\<in>set R. \<forall>c\<in>set C.
                  inner_product self (load_field self c) (load_field self r)
                    = inner_product self (load_field self r) (load_field self c)" for i j
  proof -
    have "R ! i \<in> set R" "C ! j \<in> set C" using that by simp_all
    then show ?thesis using 3[OF that(1,2)] sym by auto
  qed
  show ?thesis using 1 3 4 by (intro exI[of _ ?M]) simp
qed

text \<open>
  The theorem above at three row paths and two column paths, with the dot product of float
  fields.
\<close>

theorem inner_product_mat_entries_witness:
  "\<exists>M. compute_inner_product_mat example_util numpy_float64 dot_ops (Several [1, 2, 3]) (Several [5, 6]) = Inr M
        \<and> mat_get M 2 1
            = to_float64 numpy_float64 (inner_product dot_ops (load_field dot_ops 3) (load_field dot_ops 6))"
proof -
  have sz: "find_numRows_numCols_per_chunk example_util (maxFields dot_ops) = (1, 1)"
    by (simp add: example_util_def dot_ops_def)
  have sym: "\<forall>r\<in>set [1, 2, 3]. \<forall>c\<in>set [5, 6 :: int].
                  inner_product dot_ops (load_field dot_ops c) (load_field dot_ops r)
                    = inner_product dot_ops (load_field dot_ops r) (load_field dot_ops c)"
    by (simp add: dot_ops_def)
  from inner_product_mat_entries[OF sz _ _ storable_float_ops(1) storable_float_ops(1),
        where R = "[1, 2, 3]" and C = "[5, 6]"] sym
  obtain M where M: "compute_inner_product_mat example_util numpy_float64 dot_ops (Several [1, 2, 3]) (Several [5, 6]) = Inr M"
    "\<forall>i<length [1, 2, 3 :: int]. \<forall>j<length [5, 6 :: int]. mat_get M i j
        = to_float64 numpy_float64
            (inner_product dot_ops (load_field dot_ops ([1, 2, 3] ! i)) (load_field dot_ops ([5, 6] ! j)))"
    by auto
  from M(2) have "mat_get M 2 1 = to_float64 numpy_float64
            (inner_product dot_ops (load_field dot_ops ([1, 2, 3] ! 2)) (load_field dot_ops ([5, 6] ! 1)))"
    by simp
  then show ?thesis using M(1) by simp
qed

text \<open>
  Claim C1 as stated fails for a bilinear form that is not symmetric: with three row paths
  and two column paths the lists are exchanged, and the entry at row 0, column 0 is the
  float 5, the inner product of the column field with the row field, while the inner
  product of the row field with the column field is the float 1.
\<close>

theorem inner_product_mat_swapped_counterexample:
  "compute_inner_product_mat example_util numpy_float64 skew_ops (Several [1, 2, 3]) (Several [5, 6])
     = Inr (Mat 3 2 [[5, 6], [5, 6], [5, 6]])
   \<and> mat_get (Mat 3 2 [[5, 6], [5, 6], [5, 6 :: real]]) 0 0 = Inr 5
   \<and> inner_product skew_ops (load_field skew_ops 1) (load_field skew_ops 5) = PyFloat 1
   \<and> to_float64 numpy_float64 (PyFloat 1) = Inr 1"
proof -
  have sz: "find_numRows_numCols_per_chunk example_util (maxFields skew_ops) = (1, 1)"
    by (simp add: example_util_def skew_ops_def dot_ops_def)
  have "compute_inner_product_mat example_util numpy_float64 skew_ops (Several [1, 2, 3]) (Several [5, 6])
     = all_in_memory_inner_product_mat numpy_float64 skew_ops [1, 2, 3] [5, 6]"
    by (rule compute_inner_product_mat_all_in_memory[OF sz _ _ storable_float_ops(2) storable_float_ops(2)])
       simp_all
  moreover have "all_in_memory_inner_product_mat numpy_float64 skew_ops [1, 2, 3] [5, 6]
      = Inr (Mat 3 2 [[5, 6], [5, 6], [5, 6]])"
    by (simp add: all_in_memory_inner_product_mat_def pairwise_inner_products_def transpose_mat_def
          entry_def skew_ops_def dot_ops_def numpy_float64_def bindE_def upt_rec)
  moreover have "mat_get (Mat 3 2 [[5, 6], [5, 6], [5, 6 :: real]]) 0 0 = Inr 5"
    by (simp add: mat_get_def entry_def)
  moreover have "inner_product skew_ops (load_field skew_ops 1) (load_field skew_ops 5) = PyFloat 1"
    by (simp add: skew_ops_def dot_ops_def)
  moreover have "to_float64 numpy_float64 (PyFloat 1) = Inr 1"
    by (simp add: numpy_float64_def)
  ultimately show ?thesis by simp
qed

text \<open>
  Claim C4. With a chunk sizer that returns positive chunk sizes for every memory budget of
  at least one, and when every inner product of a row field and a column field (in either
  order) can be stored as float64, \<open>compute_inner_product_mat(R, C)\<close> returns, for every
  such budget, the float64 matrix of the unbounded all-in-memory computation, so any two
  budgets give the same matrix.
\<close>

theorem chunk_size_invariance:
  assumes "\<And>B. 1 \<le> B \<Longrightarrow> 0 < fst (find_numRows_numCols_per_chunk util B)
                         \<and> 0 < snd (find_numRows_numCols_per_chunk util B)"
    and "1 \<le> B1" and "1 \<le> B2"
    and "storable np self R C" and "storable np self C R"
  shows "compute_inner_product_mat util np (self\<lparr>maxFields := B1\<rparr>) (Several R) (Several C)
           = all_in_memory_inner_product_mat np self R C
         \<and> compute_inner_product_mat util np (self\<lparr>maxFields := B1\<rparr>) (Several R) (Several C)
           = compute_inner_product_mat util np (self\<lparr>maxFields := B2\<rparr>) (Several R) (Several C)
         \<and> (\<exists>M. compute_inner_product_mat util np (self\<lparr>maxFields := B1\<rparr>) (Several R) (Several C)
                  = Inr M)"
proof -
  have st: "storable np (self\<lparr>maxFields := B\<rparr>) R C" "storable np (self\<lparr>maxFields := B\<rparr>) C R" for B
    using assms(4,5) by (simp_all add: storable_def)
  have one: "compute_inner_product_mat util np (self\<lparr>maxFields := B\<rparr>) (Several R) (Several C)
           = all_in_memory_inner_product_mat np self R C" if B: "1 \<le> B" for B
  proof -
    obtain rs cs where sz: "find_numRows_numCols_per_chunk util B = (rs, cs)"
      by (cases "find_numRows_numCols_per_chunk util B")
    have pos: "0 < rs" "0 < cs" using assms(1)[OF B] sz by simp_all
    have "compute_inner_product_mat util np (self\<lparr>maxFields := B\<rparr>) (Several R) (Several C)
           = all_in_memory_inner_product_mat np (self\<lparr>maxFields := B\<rparr>) R C"
      by (rule compute_inner_product_mat_all_in_memory[OF _ pos st]) (simp add: sz)
    moreover have "all_in_memory_inner_product_mat np (self\<lparr>maxFields := B\<rparr>) R C
           = all_in_memory_inner_product_mat np self R C"
      by (simp add: all_in_memory_inner_product_mat_def pairwise_inner_products_def)
    ultimately show ?thesis by simp
  qed
  have "\<exists>M. all_in_memory_inner_product_mat np self R C = Inr M"
    using all_in_memory_tabulate[OF assms(4,5)] by simp
  then show ?thesis using one[OF assms(2)] one[OF assms(3)] by simp
qed

text \<open>The theorem above at budgets 1 and 5, three row paths and two column paths.\<close>

theorem chunk_size_invariance_witness:
  "compute_inner_product_mat example_util numpy_float64 (skew_ops\<lparr>maxFields := 1\<rparr>)
       (Several [1, 2, 3]) (Several [5, 6])
     = all_in_memory_inner_product_mat numpy_float64 skew_ops [1, 2, 3] [5, 6]
   \<and> compute_inner_product_mat example_util numpy_float64 (skew_ops\<lparr>maxFields := 1\<rparr>)
       (Several [1, 2, 3]) (Several [5, 6])
     = compute_inner_product_mat example_util numpy_float64 (skew_ops\<lparr>maxFields := 5\<rparr>)
       (Several [1, 2, 3]) (Several [5, 6])
   \<and> (\<exists>M. compute_inner_product_mat example_util numpy_float64 (skew_ops\<lparr>maxFields := 1\<rparr>)
              (Several [1, 2, 3]) (Several [5, 6]) = Inr M)"
proof -
  have "\<And>B. 1 \<le> B \<Longrightarrow> 0 < fst (find_numRows_numCols_per_chunk example_util B)
                         \<and> 0 < snd (find_numRows_numCols_per_chunk example_util B)"
    by (simp add: example_util_def)
  then show ?thesis
    by (rule chunk_size_invariance) (simp_all add: storable_float_ops)
qed

text \<open>
  Claim C3, as amended. The matrix is a float64 matrix. With a chunk sizer that returns
  positive chunk sizes for the memory budget, when every inner product of two loaded fields
  can be stored as float64, and with float64 addition leaving a value unchanged when 0.0 is
  added, \<open>compute_symmetric_inner_product_mat(H)\<close> returns a square matrix that is exactly
  symmetric, whose entry at row i, column j with \<open>i \<le> j\<close> is the float64 stored for
  \<open>inner_product(load(H[i]), load(H[j]))\<close>; and when the inner product is symmetric on
  the loaded fields, \<open>compute_inner_product_mat(H, H)\<close> returns the same matrix.
\<close>

theorem symmetric_inner_product_mat:
  assumes "find_numRows_numCols_per_chunk util (maxFields self) = (rs, cs)" and "0 < rs" and "0 < cs"
    and "storable np self H H"
    and "\<And>x. add64 np x (zero64 np) = x" and "\<And>x. add64 np (zero64 np) x = x"
  shows "\<exists>M. compute_symmetric_inner_product_mat util np self (Several H) = Inr M
           \<and> nrows M = length H \<and> ncols M = length H
           \<and> (\<forall>i<length H. \<forall>j<length H. mat_get M i j = mat_get M j i)
           \<and> (\<forall>i<length H. \<forall>j<length H. i \<le> j \<longrightarrow>
                 mat_get M i j
                   = to_float64 np (inner_product self (load_field self (H ! i)) (load_field self (H ! j))))
           \<and> ((\<forall>a\<in>set H. \<forall>b\<in>set H.
                  inner_product self (load_field self a) (load_field self b)
                    = inner_product self (load_field self b) (load_field self a))
                \<longrightarrow> compute_inner_product_mat util np self (Several H) (Several H) = Inr M)"
proof -
  let ?n = "length H"
  let ?M = "tabulate ?n ?n (\<lambda>i j. if i \<le> j then stored_at np self H H i j else stored_at np self H H j i)"
  have 1: "compute_symmetric_inner_product_mat util np self (Several H) = Inr ?M"
    by (rule symmetric_result[OF assms])
  have 2: "mat_get ?M i j = mat_get ?M j i" if "i < ?n" "j < ?n" for i j
    using that by (auto simp: mat_get_tabulate)
  have 3: "mat_get ?M i j
             = to_float64 np (inner_product self (load_field self (H ! i)) (load_field self (H ! j)))"
    if "i < ?n" "j < ?n" "i \<le> j" for i j
    using that storable_at[OF assms(4) that(1,2)] by (simp add: mat_get_tabulate ip_at_def)
  have 4: "compute_inner_product_mat util np self (Several H) (Several H) = Inr ?M"
    if sym: "\<forall>a\<in>set H. \<forall>b\<in>set H.
                  inner_product self (load_field self a) (load_field self b)
                    = inner_product self (load_field self b) (load_field self a)"
  proof -
    have "compute_inner_product_mat util np self (Several H) (Several H)
            = all_in_memory_inner_product_mat np self H H"
      by (rule compute_inner_product_mat_all_in_memory[OF assms(1,2,3,4,4)])
    moreover have "all_in_memory_inner_product_mat np self H H
            = Inr (tabulate ?n ?n (\<lambda>i j. if ?n \<le> ?n then stored_at np self H H i j
                                         else stored_at np self H H j i))"
      by (rule all_in_memory_tabulate[OF assms(4,4)])
    moreover have "tabulate ?n ?n (\<lambda>i j. if ?n \<le> ?n then stored_at np self H H i j
                                         else stored_at np self H H j i) = ?M"
    proof (rule tabulate_cong)
      fix i j assume ij: "i < ?n" "j < ?n"
      then have "H ! i \<in> set H" "H ! j \<in> set H" by simp_all
      then have "ip_at self H H i j = ip_at self H H j i" using sym by (simp add: ip_at_def)
      then have "stored_at np self H H i j = stored_at np self H H j i" by (simp add: stored_at_def)
      then show "(if ?n \<le> ?n then stored_at np self H H i j else stored_at np self H H j i)
                 = (if i \<le> j then stored_at np self H H i j else stored_at np self H H j i)" by simp
    qed
    ultimately show ?thesis by simp
  qed
  show ?thesis using 1 2 3 4 by (intro exI[of _ ?M]) simp
qed

text \<open>The theorem above at three paths, with the dot product of float fields.\<close>

theorem symmetric_inner_product_mat_witness:
  "\<exists>M. compute_symmetric_inner_product_mat example_util numpy_float64 dot_ops (Several [1, 2, 3]) = Inr M
        \<and> mat_get M 2 0 = mat_get M 0 2
        \<and> compute_inner_product_mat example_util numpy_float64 dot_ops (Several [1, 2, 3]) (Several [1, 2, 3]) = Inr M"
proof -
  have sz: "find_numRows_numCols_per_chunk example_util (maxFields dot_ops) = (1, 1)"
    by (simp add: example_util_def dot_ops_def)
  have z: "\<And>x. add64 numpy_float64 x (zero64 numpy_float64) = x"
    "\<And>x. add64 numpy_float64 (zero64 numpy_float64) x = x"
    by (simp_all add: numpy_float64_def)
  have sym: "\<forall>a\<in>set [1, 2, 3 :: int]. \<forall>b\<in>set [1, 2, 3].
                  inner_product dot_ops (load_field dot_ops a) (load_field dot_ops b)
                    = inner_product dot_ops (load_field dot_ops b) (load_field dot_ops a)"
    by (simp add: dot_ops_def)
  from symmetric_inner_product_mat[OF sz _ _ storable_float_ops(1) z, where H = "[1, 2, 3]"] sym
  obtain M where M: "compute_symmetric_inner_product_mat example_util numpy_float64 dot_ops (Several [1, 2, 3]) = Inr M"
    "\<forall>i<length [1, 2, 3 :: int]. \<forall>j<length [1, 2, 3 :: int]. mat_get M i j = mat_get M j i"
    "compute_inner_product_mat example_util numpy_float64 dot_ops (Several [1, 2, 3]) (Several [1, 2, 3]) = Inr M"
    by auto
  from M(2) have "mat_get M 2 0 = mat_get M 0 2" by simp
  then show ?thesis using M(1,3) by simp
qed

text \<open>
  Claim C3 as stated fails for a bilinear form that is not symmetric: the symmetric method
  mirrors the upper triangle, the rectangular one evaluates the lower triangle.
\<close>

theorem symmetric_vs_rectangular_counterexample:
  "compute_symmetric_inner_product_mat example_util numpy_float64 skew_ops (Several [1, 2])
     = Inr (Mat 2 2 [[1, 1], [1, 2]])
   \<and> compute_inner_product_mat example_util numpy_float64 skew_ops (Several [1, 2]) (Several [1, 2])
     = Inr (Mat 2 2 [[1, 1], [2, 2]])"
proof -
  have sz: "find_numRows_numCols_per_chunk example_util (maxFields skew_ops) = (1, 1)"
    by (simp add: example_util_def skew_ops_def dot_ops_def)
  have z: "\<And>x. add64 numpy_float64 x (zero64 numpy_float64) = x"
    "\<And>x. add64 numpy_float64 (zero64 numpy_float64) x = x"
    by (simp_all add: numpy_float64_def)
  have a: "compute_symmetric_inner_product_mat example_util numpy_float64 skew_ops (Several [1, 2])
      = Inr (tabulate (length [1, 2 :: int]) (length [1, 2 :: int])
          (\<lambda>i j. if i \<le> j then stored_at numpy_float64 skew_ops [1, 2] [1, 2] i j
                 else stored_at numpy_float64 skew_ops [1, 2] [1, 2] j i))"
    by (rule symmetric_result[OF sz _ _ storable_float_ops(2) z]) simp_all
  have b: "compute_inner_product_mat example_util numpy_float64 skew_ops (Several [1, 2]) (Several [1, 2])
      = all_in_memory_inner_product_mat numpy_float64 skew_ops [1, 2] [1, 2]"
    by (rule compute_inner_product_mat_all_in_memory[OF sz _ _ storable_float_ops(2) storable_float_ops(2)])
       simp_all
  have c: "all_in_memory_inner_product_mat numpy_float64 skew_ops [1, 2] [1, 2]
      = Inr (Mat 2 2 [[1, 1], [2, 2]])"
    by (simp add: all_in_memory_inner_product_mat_def pairwise_inner_products_def
          skew_ops_def dot_ops_def numpy_float64_def bindE_def)
  have d: "tabulate (length [1, 2 :: int]) (length [1, 2 :: int])
          (\<lambda>i j. if i \<le> j then stored_at numpy_float64 skew_ops [1, 2] [1, 2] i j
                 else stored_at numpy_float64 skew_ops [1, 2] [1, 2] j i)
      = Mat 2 2 [[1, 1], [1, 2]]"
    by (simp add: tabulate_def stored_at_def ip_at_def skew_ops_def dot_ops_def numpy_float64_def upt_rec)
  show ?thesis unfolding a b c d by simp
qed


section \<open>Linear combinations step by step\<close>

lemma foldE_append: "foldE f (xs @ ys) s = bindE (foldE f xs s) (foldE f ys)"
  by (induction xs arbitrary: s) (auto simp: bindE_def split: sum.splits)

lemma accumulate_later:
  assumes "k < length L" "k < ncols M" "s \<le> i" "i - s < length inputs" "i < nrows M"
  shows "accumulate ar inputs M s k i L
           = Inr (L[k := iadd ar (L ! k) (mul ar (inputs ! (i - s)) (entry M i k))])"
  using assms by (simp add: accumulate_def bindE_def py_nth_def mat_get_def)

lemma accumulate_first:
  assumes "k = length L" "k < ncols M" "s \<le> i" "i - s < length inputs" "i < nrows M"
  shows "accumulate ar inputs M s k i L = Inr (L @ [mul ar (inputs ! (i - s)) (entry M i k)])"
  using assms by (simp add: accumulate_def bindE_def py_nth_def mat_get_def)

lemma inner_later:
  assumes k: "k < length L" "k < ncols M"
    and xs: "\<forall>i\<in>set xs. s \<le> i \<and> i - s < length inputs \<and> i < nrows M"
  shows "foldE (accumulate ar inputs M s k) xs L
         = Inr (L[k := foldl (iadd ar) (L ! k) (map (\<lambda>i. mul ar (inputs ! (i - s)) (entry M i k)) xs)])"
  using k(1) xs
proof (induction xs arbitrary: L)
  case Nil
  then show ?case by simp
next
  case (Cons i xs)
  let ?L' = "L[k := iadd ar (L ! k) (mul ar (inputs ! (i - s)) (entry M i k))]"
  have step: "accumulate ar inputs M s k i L = Inr ?L'"
    using Cons.prems k(2) by (intro accumulate_later) simp_all
  have "k < length ?L'" using Cons.prems by simp
  moreover have "\<forall>i\<in>set xs. s \<le> i \<and> i - s < length inputs \<and> i < nrows M" using Cons.prems by simp
  ultimately have IH: "foldE (accumulate ar inputs M s k) xs ?L'
         = Inr (?L'[k := foldl (iadd ar) (?L' ! k) (map (\<lambda>i. mul ar (inputs ! (i - s)) (entry M i k)) xs)])"
    by (rule Cons.IH)
  show ?case using Cons.prems(1) by (simp add: step IH)
qed

lemma inner_first:
  assumes k: "k = length L" "k < ncols M"
    and i: "s \<le> i" "i - s < length inputs" "i < nrows M"
    and xs: "\<forall>i\<in>set xs. s \<le> i \<and> i - s < length inputs \<and> i < nrows M"
  shows "foldE (accumulate ar inputs M s k) (i # xs) L
         = Inr (L @ [foldl (iadd ar) (mul ar (inputs ! (i - s)) (entry M i k))
                       (map (\<lambda>i. mul ar (inputs ! (i - s)) (entry M i k)) xs)])"
proof -
  let ?t = "mul ar (inputs ! (i - s)) (entry M i k)"
  have step: "accumulate ar inputs M s k i L = Inr (L @ [?t])"
    using k i by (intro accumulate_first) simp_all
  have "k < length (L @ [?t])" using k by simp
  then have rest: "foldE (accumulate ar inputs M s k) xs (L @ [?t])
         = Inr ((L @ [?t])[k := foldl (iadd ar) ((L @ [?t]) ! k)
                  (map (\<lambda>i. mul ar (inputs ! (i - s)) (entry M i k)) xs)])"
    using k(2) xs by (rule inner_later)
  have "foldE (accumulate ar inputs M s k) (i # xs) L
      = Inr ((L @ [?t])[k := foldl (iadd ar) ((L @ [?t]) ! k)
                  (map (\<lambda>i. mul ar (inputs ! (i - s)) (entry M i k)) xs)])"
    by (simp add: step rest)
  moreover have "(L @ [?t])[k := foldl (iadd ar) ((L @ [?t]) ! k)
                  (map (\<lambda>i. mul ar (inputs ! (i - s)) (entry M i k)) xs)]
      = L @ [foldl (iadd ar) ?t (map (\<lambda>i. mul ar (inputs ! (i - s)) (entry M i k)) xs)]"
    using k(1) by simp
  ultimately show ?thesis by simp
qed

text \<open>outer loop over outputs, first chunk\<close>

lemma add_layers_first:
  assumes m: "m \<le> ncols M" and e: "0 < e" "e \<le> length inputs" "e \<le> nrows M"
  shows "add_layers ar inputs M 0 e m []
           = Inr (map (\<lambda>k. foldl (iadd ar) (mul ar (inputs ! 0) (entry M 0 k))
                              (map (\<lambda>i. mul ar (inputs ! i) (entry M i k)) [1 ..< e])) [0 ..< m])"
  using m
proof (induction m)
  case 0
  then show ?case by (simp add: add_layers_def)
next
  case (Suc m)
  let ?F = "\<lambda>k. foldl (iadd ar) (mul ar (inputs ! 0) (entry M 0 k))
                              (map (\<lambda>i. mul ar (inputs ! i) (entry M i k)) [1 ..< e])"
  have IH: "foldE (\<lambda>outputIndex. foldE (accumulate ar inputs M 0 outputIndex) [0 ..< e]) [0 ..< m] []
              = Inr (map ?F [0 ..< m])"
    using Suc by (simp add: add_layers_def)
  have upt: "[0 ..< e] = 0 # [1 ..< e]" using e(1) by (simp add: upt_rec)
  have "foldE (accumulate ar inputs M 0 m) (0 # [1 ..< e]) (map ?F [0 ..< m])
          = Inr (map ?F [0 ..< m] @ [foldl (iadd ar) (mul ar (inputs ! (0 - 0)) (entry M 0 m))
                       (map (\<lambda>i. mul ar (inputs ! (i - 0)) (entry M i m)) [1 ..< e])])"
    using Suc.prems e by (intro inner_first) auto
  then have last: "foldE (accumulate ar inputs M 0 m) [0 ..< e] (map ?F [0 ..< m])
          = Inr (map ?F [0 ..< Suc m])"
    unfolding upt by simp
  show ?case
    unfolding add_layers_def upt_Suc_append[OF le0] foldE_append
    using IH last by (simp add: bindE_def)
qed

lemma add_layers_later:
  assumes m: "m \<le> ncols M" and L: "length L = n" "m \<le> n"
    and se: "s \<le> e" "e - s \<le> length inputs" "e \<le> nrows M"
  shows "add_layers ar inputs M s e m L
           = Inr (map (\<lambda>k. foldl (iadd ar) (L ! k)
                              (map (\<lambda>i. mul ar (inputs ! (i - s)) (entry M i k)) [s ..< e])) [0 ..< m]
                  @ drop m L)"
  using m L(2)
proof (induction m)
  case 0
  then show ?case by (simp add: add_layers_def)
next
  case (Suc m)
  let ?G = "\<lambda>k. foldl (iadd ar) (L ! k)
                              (map (\<lambda>i. mul ar (inputs ! (i - s)) (entry M i k)) [s ..< e])"
  let ?Lm = "map ?G [0 ..< m] @ drop m L"
  have IH: "foldE (\<lambda>outputIndex. foldE (accumulate ar inputs M s outputIndex) [s ..< e]) [0 ..< m] L
              = Inr ?Lm"
    using Suc by (simp add: add_layers_def)
  have len: "m < length ?Lm" using Suc.prems L(1) by simp
  have nth: "?Lm ! m = L ! m" using Suc.prems L(1) by (simp add: nth_append)
  have "foldE (accumulate ar inputs M s m) [s ..< e] ?Lm
          = Inr (?Lm[m := foldl (iadd ar) (?Lm ! m)
                  (map (\<lambda>i. mul ar (inputs ! (i - s)) (entry M i m)) [s ..< e])])"
    using len Suc.prems se by (intro inner_later) auto
  moreover have "?Lm[m := ?G m] = map ?G [0 ..< Suc m] @ drop (Suc m) L"
  proof -
    have "drop m L = L ! m # drop (Suc m) L" using Suc.prems L(1) by (simp add: Cons_nth_drop_Suc)
    then show ?thesis by (simp add: list_update_append)
  qed
  ultimately have last: "foldE (accumulate ar inputs M s m) [s ..< e] ?Lm
          = Inr (map ?G [0 ..< Suc m] @ drop (Suc m) L)"
    by (simp only: nth)
  show ?case
    unfolding add_layers_def upt_Suc_append[OF le0] foldE_append
    using IH last by (simp add: bindE_def)
qed

lemma foldIO_append:
  "foldIO f (xs @ ys) s t =
     (case foldIO f xs s t of (Inl e, t') \<Rightarrow> (Inl e, t') | (Inr s', t') \<Rightarrow> foldIO f ys s' t')"
  by (induction xs arbitrary: s t) (auto split: prod.splits sum.splits)

lemma chunk_end': "0 < step \<Longrightarrow> nat (min (int s + step) (int n)) = min n (s + nat step)"
  by (simp add: min_def) linarith

lemma layer_upto_split:
  assumes "1 \<le> a" "a \<le> e"
  shows "layer_upto ar fs M k e
           = foldl (iadd ar) (layer_upto ar fs M k a) (map (\<lambda>i. mul ar (fs ! i) (entry M i k)) [a ..< e])"
proof -
  have "[1 ..< e] = [1 ..< a] @ [a ..< e]" using assms by (metis le_add_diff_inverse upt_add_eq_append)
  then show ?thesis by (simp add: layer_upto_def)
qed

lemma take_slice: "a \<le> e \<Longrightarrow> take e xs = take a xs @ slice xs a e"
proof -
  assume "a \<le> e"
  then have "take e xs = take (a + (e - a)) xs" by simp
  also have "\<dots> = take a xs @ take (e - a) (drop a xs)" by (rule take_add)
  finally show ?thesis by (simp add: slice_def)
qed

lemma layers_upto_pos:
  "0 < e \<Longrightarrow> layers_upto ar fs M e = map (\<lambda>k. layer_upto ar fs M k e) [0 ..< ncols M]"
  by (simp add: layers_upto_def)

lemma layers_upto_0: "layers_upto ar fs M 0 = []"
  by (simp add: layers_upto_def)

lemma chunk_step:
  assumes n: "nrows M = length I" and c: "0 < c" and a: "a < length I"
  shows "add_layers ar (pool_map eval_func_tuple (map (Pair ld) (slice I a (min (length I) (a + nat c)))))
            M a (min (length I) (a + nat c)) (ncols M) (layers_upto ar (map ld I) M a)
         = Inr (layers_upto ar (map ld I) M (min (length I) (a + nat c)))"
proof -
  let ?e = "min (length I) (a + nat c)"
  let ?inputs = "pool_map eval_func_tuple (map (Pair ld) (slice I a ?e))"
  let ?fs = "map ld I"
  have ae: "a < ?e" using a c by simp
  have epos: "0 < ?e" using a c by (cases I) simp_all
  have len: "length ?inputs = ?e - a" by (simp add: pool_map_def length_slice)
  have nth: "?inputs ! (i - a) = ?fs ! i" if "a \<le> i" "i < ?e" for i
  proof -
    have "?inputs = map ld (slice I a ?e)"
      by (simp add: pool_map_def eval_func_tuple_def)
    moreover have "map ld (slice I a ?e) ! (i - a) = ld (I ! i)"
      using that by (intro nth_map_slice) simp_all
    ultimately show ?thesis using that by simp
  qed
  have terms: "map (\<lambda>i. mul ar (?inputs ! (i - a)) (entry M i k)) [b ..< ?e]
             = map (\<lambda>i. mul ar (?fs ! i) (entry M i k)) [b ..< ?e]" if "a \<le> b" for k b
    using that nth by (intro map_cong) auto
  show ?thesis
  proof (cases "a = 0")
    case True
    have nth0: "?inputs ! i = ?fs ! i" if "i < ?e" for i
      using nth[of i] that True by simp
    have first: "add_layers ar ?inputs M 0 ?e (ncols M) []
           = Inr (map (\<lambda>k. foldl (iadd ar) (mul ar (?inputs ! 0) (entry M 0 k))
                              (map (\<lambda>i. mul ar (?inputs ! i) (entry M i k)) [1 ..< ?e])) [0 ..< ncols M])"
      using ae len n True by (intro add_layers_first) simp_all
    have "foldl (iadd ar) (mul ar (?inputs ! 0) (entry M 0 k))
                              (map (\<lambda>i. mul ar (?inputs ! i) (entry M i k)) [1 ..< ?e])
                 = layer_upto ar ?fs M k ?e" for k
    proof -
      have eq1: "map (\<lambda>i. mul ar (?inputs ! i) (entry M i k)) [1 ..< ?e]
          = map (\<lambda>i. mul ar (?fs ! i) (entry M i k)) [1 ..< ?e]"
        using nth0 by (intro map_cong) auto
      have "0 < ?e" using ae True by simp
      then have eq2: "?inputs ! 0 = ?fs ! 0" by (rule nth0)
      show ?thesis by (simp only: layer_upto_def eq1 eq2)
    qed
    then have "map (\<lambda>k. foldl (iadd ar) (mul ar (?inputs ! 0) (entry M 0 k))
                              (map (\<lambda>i. mul ar (?inputs ! i) (entry M i k)) [1 ..< ?e])) [0 ..< ncols M]
             = map (\<lambda>k. layer_upto ar ?fs M k ?e) [0 ..< ncols M]"
      by simp
    then have "add_layers ar ?inputs M 0 ?e (ncols M) [] = Inr (layers_upto ar ?fs M ?e)"
      unfolding layers_upto_pos[OF epos] using first by simp
    moreover have "layers_upto ar ?fs M a = []" using True by (simp add: layers_upto_0)
    ultimately show ?thesis using True by simp
  next
    case False
    let ?L = "map (\<lambda>k. layer_upto ar ?fs M k a) [0 ..< ncols M]"
    have "add_layers ar ?inputs M a ?e (ncols M) ?L
           = Inr (map (\<lambda>k. foldl (iadd ar) (?L ! k)
                              (map (\<lambda>i. mul ar (?inputs ! (i - a)) (entry M i k)) [a ..< ?e])) [0 ..< ncols M]
                  @ drop (ncols M) ?L)"
      using ae len n by (intro add_layers_later[where n = "ncols M"]) simp_all
    moreover have "map (\<lambda>k. foldl (iadd ar) (?L ! k)
                              (map (\<lambda>i. mul ar (?inputs ! (i - a)) (entry M i k)) [a ..< ?e])) [0 ..< ncols M]
                 = map (\<lambda>k. layer_upto ar ?fs M k ?e) [0 ..< ncols M]"
    proof (rule map_cong[OF refl])
      fix k assume "k \<in> set [0 ..< ncols M]"
      then have k: "k < ncols M" by simp
      have sp: "layer_upto ar ?fs M k ?e
           = foldl (iadd ar) (layer_upto ar ?fs M k a) (map (\<lambda>i. mul ar (?fs ! i) (entry M i k)) [a ..< ?e])"
        using False ae by (intro layer_upto_split) simp_all
      have Lk: "?L ! k = layer_upto ar ?fs M k a" using k by simp
      show "foldl (iadd ar) (?L ! k)
                              (map (\<lambda>i. mul ar (?inputs ! (i - a)) (entry M i k)) [a ..< ?e])
                = layer_upto ar ?fs M k ?e"
        by (simp only: Lk terms[OF le_refl] sp)
    qed
    ultimately have "add_layers ar ?inputs M a ?e (ncols M) ?L = Inr (layers_upto ar ?fs M ?e)"
      unfolding layers_upto_pos[OF epos] by simp
    moreover have "layers_upto ar ?fs M a = ?L" using False by (simp add: layers_upto_pos)
    ultimately show ?thesis by simp
  qed
qed

lemma input_chunk_step_eq:
  assumes n: "nrows M = length I" and c: "0 < c" and a: "a < length I"
  shows "input_chunk_step self ar I M c a (layers_upto ar (map (load_field self) I) M a)
           (t0 @ map Loaded (take a I))
         = (Inr (layers_upto ar (map (load_field self) I) M (min (length I) (a + nat c))),
            t0 @ map Loaded (take (min (length I) (a + nat c)) I))"
proof -
  let ?e = "min (length I) (a + nat c)"
  have e: "nat (min (int a + c) (int (length I))) = ?e" using c by (rule chunk_end')
  have tk: "take ?e I = take a I @ slice I a ?e" using a c by (intro take_slice) simp
  show ?thesis
    unfolding input_chunk_step_def Let_def e chunk_step[OF n c a] tk by simp
qed

lemma chunk_loop:
  assumes n: "nrows M = length I" and c: "0 < c"
    and j: "j \<le> (length I - 0 + nat c - 1) div nat c"
  shows "foldIO (input_chunk_step self ar I M c) (map (\<lambda>k. 0 + k * nat c) [0 ..< j]) [] t0
         = (Inr (layers_upto ar (map (load_field self) I) M (min (length I) (j * nat c))),
            t0 @ map Loaded (take (min (length I) (j * nat c)) I))"
  using j
proof (induction j)
  case 0
  then show ?case by (simp add: layers_upto_0)
next
  case (Suc j)
  let ?s = "nat c"
  let ?a = "j * ?s"
  let ?e = "min (length I) (?a + ?s)"
  have s: "0 < ?s" using c by simp
  have "0 + j * ?s \<in> (\<lambda>k. 0 + k * ?s) ` set [0 ..< (length I - 0 + ?s - 1) div ?s]"
    using Suc.prems by (intro imageI) simp
  then have "0 + j * ?s \<in> set (map (\<lambda>k. 0 + k * ?s) [0 ..< (length I - 0 + ?s - 1) div ?s])"
    by (simp only: set_map)
  then have "0 + ?a < length I" using row_start_lt[OF s] by blast
  then have a: "?a < length I" by simp
  then have mina: "min (length I) ?a = ?a" by simp
  have "j \<le> (length I - 0 + ?s - 1) div ?s" using Suc.prems by simp
  then have IH: "foldIO (input_chunk_step self ar I M c) (map (\<lambda>k. 0 + k * ?s) [0 ..< j]) [] t0
         = (Inr (layers_upto ar (map (load_field self) I) M ?a), t0 @ map Loaded (take ?a I))"
    using Suc.IH by (simp only: mina)
  have e: "min (length I) (Suc j * ?s) = ?e" by (simp add: add.commute)
  have "foldIO (input_chunk_step self ar I M c) (map (\<lambda>k. 0 + k * ?s) [0 ..< Suc j]) [] t0
      = foldIO (input_chunk_step self ar I M c) [0 + ?a] (layers_upto ar (map (load_field self) I) M ?a)
          (t0 @ map Loaded (take ?a I))"
    by (simp only: upt_Suc_append[OF le0] map_append foldIO_append IH list.map prod.case sum.case)
  also have "\<dots> = (Inr (layers_upto ar (map (load_field self) I) M ?e), t0 @ map Loaded (take ?e I))"
    by (simp add: input_chunk_step_eq[OF n c a])
  finally show ?case by (simp only: e)
qed

lemma chunks_reach:
  assumes "0 < (s::nat)"
  shows "n \<le> ((n - a + s - 1) div s) * s + a"
proof -
  have "n - a + s - 1 < ((n - a + s - 1) div s) * s + s"
    using assms by (metis add.commute mod_div_mult_eq mult.commute add_less_cancel_left mod_less_divisor)
  then show ?thesis by linarith
qed

lemma py_xrange_pos:
  "0 < step \<Longrightarrow>
   py_xrange a n step = Inr (map (\<lambda>k. a + k * nat step) [0 ..< (n - a + nat step - 1) div nat step])"
  by (simp add: py_xrange_def py_range_pos)

lemma lin_combine_chunk_result:
  assumes n: "nrows M = length I" and c: "0 < c"
  shows "lin_combine_chunk util self ar I M (Some c) t0
         = (Inr (layers_upto ar (map (load_field self) I) M (length I)), t0 @ map Loaded I)"
proof -
  let ?N = "(length I - 0 + nat c - 1) div nat c"
  have s: "0 < nat c" using c by simp
  have "length I \<le> ?N * nat c + 0" using s by (rule chunks_reach)
  then have m: "min (length I) (?N * nat c) = length I" by simp
  have "foldIO (input_chunk_step self ar I M c) (map (\<lambda>k. 0 + k * nat c) [0 ..< ?N]) [] t0
         = (Inr (layers_upto ar (map (load_field self) I) M (min (length I) (?N * nat c))),
            t0 @ map Loaded (take (min (length I) (?N * nat c)) I))"
    by (rule chunk_loop[OF n c le_refl])
  then have "foldIO (input_chunk_step self ar I M c) (map (\<lambda>k. 0 + k * nat c) [0 ..< ?N]) [] t0
         = (Inr (layers_upto ar (map (load_field self) I) M (length I)), t0 @ map Loaded I)"
    unfolding m by simp
  then show ?thesis
    using n c by (simp add: lin_combine_chunk_def py_xrange_pos)
qed

lemma lin_combine_chunk_assert:
  "nrows M \<noteq> length I \<Longrightarrow> lin_combine_chunk util self ar I M arg t0 = (Inl AssertionError, t0)"
  by (simp add: lin_combine_chunk_def)

lemma nrows_mat_col_slice [simp]: "nrows (mat_col_slice M a b) = nrows M"
  by (simp add: mat_col_slice_def)

lemma ncols_mat_col_slice: "b \<le> ncols M \<Longrightarrow> ncols (mat_col_slice M a b) = b - a"
  by (simp add: mat_col_slice_def)

lemma entry_mat_col_slice:
  assumes "wf_mat M" "i < nrows M" "a + k < b" "b \<le> ncols M"
  shows "entry (mat_col_slice M a b) i k = entry M i (a + k)"
proof -
  have l: "length (rows_of M ! i) = ncols M" using assms by (simp add: wf_mat_nth)
  have "entry (mat_col_slice M a b) i k = slice (rows_of M ! i) a b ! k"
    using assms by (simp add: entry_def mat_col_slice_def wf_mat_def)
  also have "\<dots> = rows_of M ! i ! (a + k)"
    using assms l by (simp add: slice_def)
  finally show ?thesis by (simp add: entry_def)
qed

lemma layer_upto_col_slice:
  assumes "wf_mat M" "0 < n" "n \<le> nrows M" "a + k < b" "b \<le> ncols M"
  shows "layer_upto ar fs (mat_col_slice M a b) k n = layer_upto ar fs M (a + k) n"
proof -
  have 0: "entry (mat_col_slice M a b) 0 k = entry M 0 (a + k)"
    using assms by (intro entry_mat_col_slice) simp_all
  have 1: "map (\<lambda>i. mul ar (fs ! i) (entry (mat_col_slice M a b) i k)) [1 ..< n]
         = map (\<lambda>i. mul ar (fs ! i) (entry M i (a + k))) [1 ..< n]"
  proof (rule map_cong[OF refl])
    fix i assume "i \<in> set [1 ..< n]"
    then have "i < nrows M" using assms by simp
    then have "entry (mat_col_slice M a b) i k = entry M i (a + k)"
      using assms by (intro entry_mat_col_slice) simp_all
    then show "mul ar (fs ! i) (entry (mat_col_slice M a b) i k) = mul ar (fs ! i) (entry M i (a + k))"
      by simp
  qed
  show ?thesis by (simp only: layer_upto_def 0 1)
qed

lemma weighted_sum_layer_upto:
  assumes wf: "wf_mat M" and n: "nrows M = length fs" and ne: "fs \<noteq> []"
  shows "weighted_sum ar fs (mat_col M k) = layer_upto ar fs M k (length fs)"
proof -
  let ?cs = "mat_col M k"
  have lcs: "length ?cs = length fs" using wf n by (simp add: mat_col_def wf_mat_def)
  have cs: "?cs ! i = entry M i k" if "i < length fs" for i
    using that wf n by (simp add: mat_col_def entry_def wf_mat_def)
  have hdf: "hd fs = fs ! 0" using ne by (simp add: hd_conv_nth)
  have hdc: "hd ?cs = entry M 0 k"
  proof -
    have "?cs \<noteq> []" using lcs ne by auto
    then have "hd ?cs = ?cs ! 0" by (simp add: hd_conv_nth)
    then show ?thesis using cs[of 0] ne by simp
  qed
  have rest: "map (\<lambda>(f, c). mul ar f c) (zip (tl fs) (tl ?cs))
            = map (\<lambda>i. mul ar (fs ! i) (entry M i k)) [1 ..< length fs]"
  proof (rule nth_equalityI)
    show "length (map (\<lambda>(f, c). mul ar f c) (zip (tl fs) (tl ?cs)))
          = length (map (\<lambda>i. mul ar (fs ! i) (entry M i k)) [1 ..< length fs])"
      using lcs by simp
  next
    fix i assume "i < length (map (\<lambda>(f, c). mul ar f c) (zip (tl fs) (tl ?cs)))"
    then have i: "i < length fs - 1" using lcs by simp
    then have "Suc i < length fs" by simp
    then show "map (\<lambda>(f, c). mul ar f c) (zip (tl fs) (tl ?cs)) ! i
             = map (\<lambda>i. mul ar (fs ! i) (entry M i k)) [1 ..< length fs] ! i"
      using i lcs cs[of "Suc i"] by (simp add: nth_tl)
  qed
  show ?thesis by (simp only: weighted_sum_def layer_upto_def hdf hdc rest)
qed

lemma map_upt_shift: "map (\<lambda>k. f (a + k)) [0 ..< b - a] = map f [a ..< b]"
  by (intro nth_equalityI) (simp_all add: add.commute)

lemma output_batch_step_eq:
  assumes wf: "wf_mat M" and n: "nrows M = length I" and ne: "I \<noteq> []"
    and c: "0 < c" and p: "0 < p" and so: "so < length Os" and Os: "length Os \<le> ncols M"
  shows "output_batch_step util self ar save Os I M c p so u t
         = (Inr (),
            t @ map Loaded I
              @ map Saved (map (\<lambda>k. save (layer_upto ar (map (load_field self) I) M k (length I)) (Os ! k))
                             [so ..< min (length Os) (so + nat p)]))"
proof -
  let ?eo = "min (length Os) (so + nat p)"
  let ?M' = "mat_col_slice M so ?eo"
  let ?fs = "map (load_field self) I"
  let ?n = "length I"
  have e: "nat (min (int (length Os)) (int so + p)) = ?eo" using p by (rule chunk_end)
  have eo: "?eo \<le> ncols M" "so < ?eo" using Os so p by simp_all
  have npos: "0 < ?n" using ne by simp
  have chunk: "lin_combine_chunk util self ar I ?M' (Some c) t
         = (Inr (layers_upto ar ?fs ?M' ?n), t @ map Loaded I)"
    using n c by (intro lin_combine_chunk_result) simp_all
  have nc: "ncols ?M' = ?eo - so" using eo by (simp add: ncols_mat_col_slice)
  have layers: "layers_upto ar ?fs ?M' ?n
              = map (\<lambda>k. layer_upto ar ?fs M (so + k) ?n) [0 ..< ?eo - so]"
  proof -
    have "map (\<lambda>k. layer_upto ar ?fs ?M' k ?n) [0 ..< ?eo - so]
        = map (\<lambda>k. layer_upto ar ?fs M (so + k) ?n) [0 ..< ?eo - so]"
    proof (rule map_cong[OF refl])
      fix k assume "k \<in> set [0 ..< ?eo - so]"
      then have "so + k < ?eo" by auto
      then show "layer_upto ar ?fs ?M' k ?n = layer_upto ar ?fs M (so + k) ?n"
        using wf npos n eo(1) by (intro layer_upto_col_slice) simp_all
    qed
    then show ?thesis using npos by (simp only: layers_upto_pos nc)
  qed
  have paths: "slice Os so ?eo = map (\<lambda>k. Os ! (so + k)) [0 ..< ?eo - so]"
    by (intro nth_equalityI) (simp_all add: slice_def)
  have saves: "pool_map eval_func_tuple
                 (map (Pair (\<lambda>(layer, path). save layer path))
                    (zip (layers_upto ar ?fs ?M' ?n) (slice Os so ?eo)))
             = map (\<lambda>k. save (layer_upto ar ?fs M k ?n) (Os ! k)) [so ..< ?eo]"
  proof -
    have "pool_map eval_func_tuple
                 (map (Pair (\<lambda>(layer, path). save layer path))
                    (zip (layers_upto ar ?fs ?M' ?n) (slice Os so ?eo)))
        = map (\<lambda>k. save (layer_upto ar ?fs M (so + k) ?n) (Os ! (so + k))) [0 ..< ?eo - so]"
      unfolding layers paths
      by (intro nth_equalityI) (simp_all add: pool_map_def eval_func_tuple_def)
    also have "\<dots> = map (\<lambda>k. save (layer_upto ar ?fs M k ?n) (Os ! k)) [so ..< ?eo]"
      by (rule map_upt_shift)
    finally show ?thesis .
  qed
  show ?thesis
    by (simp only: output_batch_step_def Let_def e chunk saves prod.case sum.case append_assoc)
qed

lemma batch_loop:
  assumes wf: "wf_mat M" and n: "nrows M = length I" and ne: "I \<noteq> []"
    and c: "0 < c" and p: "0 < p" and Os: "length Os \<le> ncols M"
    and j: "j \<le> (length Os - 0 + nat p - 1) div nat p"
  shows "foldIO (output_batch_step util self ar save Os I M c p)
           (map (\<lambda>k. 0 + k * nat p) [0 ..< j]) () t0
         = (Inr (), t0 @ concat (map (batch_trace self ar save Os I M (nat p)) [0 ..< j]))"
  using j
proof (induction j)
  case 0
  then show ?case by simp
next
  case (Suc j)
  let ?s = "nat p"
  have s: "0 < ?s" using p by simp
  have "0 + j * ?s \<in> (\<lambda>k. 0 + k * ?s) ` set [0 ..< (length Os - 0 + ?s - 1) div ?s]"
    using Suc.prems by (intro imageI) simp
  then have "0 + j * ?s \<in> set (map (\<lambda>k. 0 + k * ?s) [0 ..< (length Os - 0 + ?s - 1) div ?s])"
    by (simp only: set_map)
  then have "0 + j * ?s < length Os" using row_start_lt[OF s] by blast
  then have a: "j * ?s < length Os" by simp
  have "j \<le> (length Os - 0 + ?s - 1) div ?s" using Suc.prems by simp
  then have IH: "foldIO (output_batch_step util self ar save Os I M c p)
           (map (\<lambda>k. 0 + k * ?s) [0 ..< j]) () t0
         = (Inr (), t0 @ concat (map (batch_trace self ar save Os I M ?s) [0 ..< j]))"
    by (rule Suc.IH)
  have step: "output_batch_step util self ar save Os I M c p (j * ?s) ()
                (t0 @ concat (map (batch_trace self ar save Os I M ?s) [0 ..< j]))
            = (Inr (), (t0 @ concat (map (batch_trace self ar save Os I M ?s) [0 ..< j]))
                       @ batch_trace self ar save Os I M ?s j)"
    by (simp only: batch_trace_def output_batch_step_eq[OF wf n ne c p a Os] append_assoc)
  have "foldIO (output_batch_step util self ar save Os I M c p)
           (map (\<lambda>k. 0 + k * ?s) [0 ..< Suc j]) () t0
      = foldIO (output_batch_step util self ar save Os I M c p) [0 + j * ?s] ()
          (t0 @ concat (map (batch_trace self ar save Os I M ?s) [0 ..< j]))"
    by (simp only: upt_Suc_append[OF le0] map_append foldIO_append IH list.map prod.case sum.case)
  also have "\<dots> = (Inr (), (t0 @ concat (map (batch_trace self ar save Os I M ?s) [0 ..< j]))
                       @ batch_trace self ar save Os I M ?s j)"
    using step by simp
  finally show ?case by simp
qed

lemma saves_of_append [simp]: "saves_of (xs @ ys) = saves_of xs @ saves_of ys"
  by (simp add: saves_of_def)

lemma saves_of_Loaded [simp]: "saves_of (map Loaded xs) = []"
  by (induction xs) (simp_all add: saves_of_def)

lemma saves_of_Saved [simp]: "saves_of (map Saved ws) = ws"
  by (induction ws) (simp_all add: saves_of_def)

lemma saves_of_batch_trace:
  "saves_of (batch_trace self ar save Os I M s b)
     = map (\<lambda>k. save (layer_upto ar (map (load_field self) I) M k (length I)) (Os ! k))
         [b * s ..< min (length Os) (b * s + s)]"
  by (simp only: batch_trace_def saves_of_append saves_of_Loaded saves_of_Saved append_Nil)

lemma saves_of_batches:
  assumes s: "0 < s"
  shows "saves_of (concat (map (batch_trace self ar save Os I M s) [0 ..< j]))
         = map (\<lambda>k. save (layer_upto ar (map (load_field self) I) M k (length I)) (Os ! k))
             [0 ..< min (length Os) (j * s)]"
proof (induction j)
  case 0
  then show ?case by (simp add: saves_of_def)
next
  case (Suc j)
  let ?W = "\<lambda>k. save (layer_upto ar (map (load_field self) I) M k (length I)) (Os ! k)"
  have "saves_of (concat (map (batch_trace self ar save Os I M s) [0 ..< Suc j]))
      = map ?W [0 ..< min (length Os) (j * s)] @ map ?W [j * s ..< min (length Os) (j * s + s)]"
    using Suc by (simp add: saves_of_batch_trace)
  also have "\<dots> = map ?W [0 ..< min (length Os) (Suc j * s)]"
  proof (cases "j * s \<le> length Os")
    case True
    then have "[0 ..< min (length Os) (j * s + s)] = [0 ..< j * s] @ [j * s ..< min (length Os) (j * s + s)]"
      by (metis le_add1 le_add_diff_inverse min.boundedI upt_add_eq_append zero_le)
    then show ?thesis using True by (simp add: add.commute min_absorb2)
  next
    case False
    then show ?thesis by (simp add: min_absorb1 add.commute)
  qed
  finally show ?case .
qed

lemma chunk_sizes_pos:
  assumes "1 \<le> getNumProcs util" "2 \<le> maxFields self"
  shows "0 < default_numInputsPerChunk util self"
    and "0 < maxFields self - default_numInputsPerChunk util self"
  using assms by (simp_all add: default_numInputsPerChunk_def)

lemma lin_combine_trace:
  assumes sv: "save_field self = Some save" and wf: "wf_mat M" and n: "nrows M = length I"
    and ne: "I \<noteq> []" and Os: "length Os \<le> ncols M"
    and procs: "1 \<le> getNumProcs util" and budget: "2 \<le> maxFields self"
  shows "lin_combine util self ar (Several Os) (Several I) M
         = (Inr (),
            concat (map (batch_trace self ar save Os I M
                           (nat (maxFields self - default_numInputsPerChunk util self)))
                      [0 ..< (length Os - 0 + nat (maxFields self - default_numInputsPerChunk util self) - 1)
                               div nat (maxFields self - default_numInputsPerChunk util self)]))"
proof -
  let ?c = "default_numInputsPerChunk util self"
  let ?p = "maxFields self - ?c"
  have c: "0 < ?c" and p: "0 < ?p" using chunk_sizes_pos[OF procs budget] by simp_all
  have loop: "foldIO (output_batch_step util self ar save Os I M ?c ?p)
           (map (\<lambda>k. 0 + k * nat ?p) [0 ..< (length Os - 0 + nat ?p - 1) div nat ?p]) () []
         = (Inr (), [] @ concat (map (batch_trace self ar save Os I M (nat ?p))
                                   [0 ..< (length Os - 0 + nat ?p - 1) div nat ?p]))"
    by (rule batch_loop[OF wf n ne c p Os le_refl])
  have rng: "py_range 0 (length Os) ?p
           = Inr (map (\<lambda>k. 0 + k * nat ?p) [0 ..< (length Os - 0 + nat ?p - 1) div nat ?p])"
    using p by (rule py_range_pos)
  show ?thesis
    using n Os by (simp only: lin_combine_def sv option.case as_list.simps Let_def rng sum.case loop
        append_Nil) simp
qed

lemma lin_combine_saves:
  assumes sv: "save_field self = Some save" and wf: "wf_mat M" and n: "nrows M = length I"
    and ne: "I \<noteq> []" and Os: "length Os \<le> ncols M"
    and procs: "1 \<le> getNumProcs util" and budget: "2 \<le> maxFields self"
  shows "\<exists>tr. lin_combine util self ar (Several Os) (Several I) M = (Inr (), tr)
           \<and> saves_of tr
               = map (\<lambda>k. save (layer_upto ar (map (load_field self) I) M k (length I)) (Os ! k))
                   [0 ..< length Os]"
proof -
  let ?s = "nat (maxFields self - default_numInputsPerChunk util self)"
  let ?N = "(length Os - 0 + ?s - 1) div ?s"
  have s: "0 < ?s" using chunk_sizes_pos(2)[OF procs budget] by simp
  have "length Os \<le> ?N * ?s + 0" using s by (rule chunks_reach)
  then have m: "min (length Os) (?N * ?s) = length Os" by simp
  have "saves_of (concat (map (batch_trace self ar save Os I M ?s) [0 ..< ?N]))
         = map (\<lambda>k. save (layer_upto ar (map (load_field self) I) M k (length I)) (Os ! k))
             [0 ..< min (length Os) (?N * ?s)]"
    using s by (rule saves_of_batches)
  then show ?thesis
    unfolding m using lin_combine_trace[OF assms] by simp
qed


lemma check_mode_numbers_pass:
  "\<forall>m\<in>set modes. indexFrom \<le> m \<and> m - indexFrom < int nc
     \<Longrightarrow> check_mode_numbers modes indexFrom nc = Inr ()"
  by (induction modes) simp_all

lemma check_mode_numbers_fail:
  "\<exists>m\<in>set modes. m < indexFrom \<or> int nc \<le> m - indexFrom
     \<Longrightarrow> check_mode_numbers modes indexFrom nc
           = Inl (ValueError ''Cannot compute if mode number is less than indexFrom'')
         \<or> check_mode_numbers modes indexFrom nc
           = Inl (ValueError (''Cannot compute if mode index is greater ''
                    @ ''than number of columns in the build coefficient matrix''))"
  by (induction modes) auto





section \<open>Claims about linear combinations and modes\<close>

text \<open>
  Claim C2, amended. For a facade with a save operation, at least one worker process and
  a memory budget of at least 2, a non-empty list of input paths \<open>I\<close>, a coefficient matrix
  \<open>M\<close> with as many rows as there are input paths and a list of output paths \<open>Os\<close> no longer
  than the matrix is wide, \<open>lin_combine\<close> returns without raising, and its saves are, in
  the order of the output paths, one save to each \<open>Os[k]\<close> of the weighted sum of the
  loaded inputs with column \<open>k\<close> of \<open>M\<close>: the first input times its coefficient, then every
  further input times its coefficient added in index order. The equality is exact in the
  arithmetic of the field class, whatever the budget.
\<close>

theorem lin_combine_weighted_sums:
  assumes sv: "save_field self = Some save" and wf: "wf_mat M" and n: "nrows M = length I"
    and ne: "I \<noteq> []" and Os: "length Os \<le> ncols M"
    and procs: "1 \<le> getNumProcs util" and budget: "2 \<le> maxFields self"
  shows "\<exists>tr. lin_combine util self ar (Several Os) (Several I) M = (Inr (), tr)
           \<and> saves_of tr
               = map (\<lambda>k. save (weighted_sum ar (map (load_field self) I) (mat_col M k)) (Os ! k))
                   [0 ..< length Os]"
proof -
  have "weighted_sum ar (map (load_field self) I) (mat_col M k)
        = layer_upto ar (map (load_field self) I) M k (length I)" for k
    using weighted_sum_layer_upto[of M "map (load_field self) I" ar k] wf n ne by simp
  then show ?thesis using lin_combine_saves[OF assms, of ar] by simp
qed

text \<open>
  The theorem at two input paths, three output paths and a budget of 3 fields with two
  worker processes: the three weighted sums are saved in order.
\<close>

theorem lin_combine_weighted_sums_witness:
  "\<exists>tr. lin_combine example_util (dot_ops\<lparr>maxFields := 3\<rparr>) pair_arith
           (Several [100, 200, 300]) (Several [10, 20]) (Mat 2 3 [[1, 2, 3], [4, 5, 6]]) = (Inr (), tr)
        \<and> saves_of tr = [(100, (90, 5)), (200, (120, 7)), (300, (150, 9))]"
proof -
  have up: "[0 ..< length [100, 200, 300 :: int]] = [0, 1, 2]"
    by (simp add: upt_rec)
  from lin_combine_weighted_sums[where self = "dot_ops\<lparr>maxFields := 3\<rparr>" and util = example_util
      and I = "[10, 20]" and Os = "[100, 200, 300]" and M = "Mat 2 3 [[1, 2, 3], [4, 5, 6]]"
      and save = "\<lambda>f h. (h, f)" and ar = pair_arith]
  show ?thesis
    unfolding up
    by (simp add: dot_ops_def example_util_def wf_mat_def weighted_sum_def mat_col_def pair_arith_def)
qed

text \<open>
  Claim C2 as stated fails in two ways. With a memory budget of 1 the number of outputs
  per batch is 0 and \<open>range\<close> raises before anything is loaded or saved; with an empty list
  of input paths (and a matrix with no rows) the call returns and nothing is saved to the
  output path.
\<close>

theorem lin_combine_counterexample:
  "lin_combine example_util (dot_ops\<lparr>maxFields := 1\<rparr>) pair_arith
      (Several [100]) (Several [10]) (Mat 1 1 [[2]])
     = (Inl (ValueError ''range() step argument must not be zero''), [])
   \<and> lin_combine example_util dot_ops pair_arith (Several [100]) (Several []) (Mat 0 1 [])
     = (Inr (), [])"
  by (simp add: lin_combine_def dot_ops_def example_util_def default_numInputsPerChunk_def
      py_range_def output_batch_step_def lin_combine_chunk_def py_xrange_def mat_col_slice_def
      pool_map_def slice_def)

text \<open>
  Claim C5 on the code: with one input path and a coefficient matrix of two rows, fewer
  input paths than rows, \<open>lin_combine\<close> passes its own checks and then the assertion of
  \<open>lin_combine_chunk\<close> fails; nothing has been loaded or saved.
\<close>

theorem lin_combine_fewer_inputs_asserts:
  "lin_combine example_util dot_ops pair_arith (Several [100]) (Several [10]) (Mat 2 1 [[1], [1]])
     = (Inl AssertionError, [])"
  by (simp add: lin_combine_def dot_ops_def example_util_def default_numInputsPerChunk_def
      py_range_def output_batch_step_def lin_combine_chunk_def mat_col_slice_def)

text \<open>
  Claim C6, amended. With a save operation defined, \<open>_compute_modes\<close> raises a
  \<open>ValueError\<close>, before any load or save, when the count of requested mode numbers
  (repetitions counted) exceeds the count of snapshot paths, or when some requested mode
  number is below \<open>indexFrom\<close> or has mode number minus \<open>indexFrom\<close> at or beyond the column
  count of the coefficient matrix; otherwise the validations pass.
\<close>

theorem compute_modes_validation:
  assumes sv: "save_field self = Some save"
  shows "(length snaps < length modes \<longrightarrow>
            compute_modes util self ar fmt (Several modes) modePath (Several snaps) M indexFrom
              = (Inl (ValueError ''cannot compute more modes than number of snapshots''), []))
       \<and> (length modes \<le> length snaps
            \<and> (\<exists>m\<in>set modes. m < indexFrom \<or> int (ncols M) \<le> m - indexFrom) \<longrightarrow>
            compute_modes util self ar fmt (Several modes) modePath (Several snaps) M indexFrom
              = (Inl (ValueError ''Cannot compute if mode number is less than indexFrom''), [])
          \<or> compute_modes util self ar fmt (Several modes) modePath (Several snaps) M indexFrom
              = (Inl (ValueError (''Cannot compute if mode index is greater ''
                        @ ''than number of columns in the build coefficient matrix'')), []))
       \<and> (length modes \<le> length snaps
            \<and> (\<forall>m\<in>set modes. indexFrom \<le> m \<and> m - indexFrom < int (ncols M)) \<longrightarrow>
            validate_mode_request modes snaps M indexFrom = Inr ())"
proof (intro conjI impI)
  assume "length snaps < length modes"
  then show "compute_modes util self ar fmt (Several modes) modePath (Several snaps) M indexFrom
              = (Inl (ValueError ''cannot compute more modes than number of snapshots''), [])"
    by (simp add: compute_modes_def sv validate_mode_request_def)
next
  assume a: "length modes \<le> length snaps
            \<and> (\<exists>m\<in>set modes. m < indexFrom \<or> int (ncols M) \<le> m - indexFrom)"
  then have v: "validate_mode_request modes snaps M indexFrom
                  = check_mode_numbers modes indexFrom (ncols M)"
    by (simp add: validate_mode_request_def)
  from a have "\<exists>m\<in>set modes. m < indexFrom \<or> int (ncols M) \<le> m - indexFrom" by simp
  from check_mode_numbers_fail[OF this]
  show "compute_modes util self ar fmt (Several modes) modePath (Several snaps) M indexFrom
              = (Inl (ValueError ''Cannot compute if mode number is less than indexFrom''), [])
          \<or> compute_modes util self ar fmt (Several modes) modePath (Several snaps) M indexFrom
              = (Inl (ValueError (''Cannot compute if mode index is greater ''
                        @ ''than number of columns in the build coefficient matrix'')), [])"
    by (auto simp add: compute_modes_def sv v)
next
  assume a: "length modes \<le> length snaps
            \<and> (\<forall>m\<in>set modes. indexFrom \<le> m \<and> m - indexFrom < int (ncols M))"
  then have "\<forall>m\<in>set modes. indexFrom \<le> m \<and> m - indexFrom < int (ncols M)" by simp
  from check_mode_numbers_pass[OF this] a
  show "validate_mode_request modes snaps M indexFrom = Inr ()"
    by (simp add: validate_mode_request_def)
qed

text \<open>
  The theorem at three requests against two snapshots and a matrix of two columns,
  indexed from 1: too many modes; mode 0; mode 3; and the valid request of modes 2 and 1.
\<close>

theorem compute_modes_validation_witness:
  "compute_modes example_util dot_ops pair_arith plus_fmt (Several [1, 2, 1]) 1000 (Several [10, 20])
       (Mat 2 2 [[1, 2], [3, 4]]) 1
     = (Inl (ValueError ''cannot compute more modes than number of snapshots''), [])
   \<and> compute_modes example_util dot_ops pair_arith plus_fmt (Several [0]) 1000 (Several [10, 20])
       (Mat 2 2 [[1, 2], [3, 4]]) 1
     = (Inl (ValueError ''Cannot compute if mode number is less than indexFrom''), [])
   \<and> compute_modes example_util dot_ops pair_arith plus_fmt (Several [3]) 1000 (Several [10, 20])
       (Mat 2 2 [[1, 2], [3, 4]]) 1
     = (Inl (ValueError (''Cannot compute if mode index is greater ''
                        @ ''than number of columns in the build coefficient matrix'')), [])
   \<and> validate_mode_request [2, 1] [10, 20 :: int] (Mat 2 2 [[1, 2], [3, 4 :: real]]) 1 = Inr ()"
proof -
  have sv: "save_field dot_ops = Some (\<lambda>f h. (h, f))" by (simp add: dot_ops_def)
  note v = compute_modes_validation[OF sv, where util = example_util and ar = pair_arith
      and fmt = plus_fmt and modePath = 1000 and snaps = "[10, 20]"
      and M = "Mat 2 2 [[1, 2], [3, 4]]" and indexFrom = 1]
  have a: "compute_modes example_util dot_ops pair_arith plus_fmt (Several [1, 2, 1]) 1000
             (Several [10, 20]) (Mat 2 2 [[1, 2], [3, 4]]) 1
           = (Inl (ValueError ''cannot compute more modes than number of snapshots''), [])"
    using v[where modes = "[1, 2, 1]"] by simp
  have b: "compute_modes example_util dot_ops pair_arith plus_fmt (Several [0]) 1000
             (Several [10, 20]) (Mat 2 2 [[1, 2], [3, 4]]) 1
           = (Inl (ValueError ''Cannot compute if mode number is less than indexFrom''), [])"
    using v[where modes = "[0]"]
    by (simp add: compute_modes_def dot_ops_def validate_mode_request_def)
  have c: "compute_modes example_util dot_ops pair_arith plus_fmt (Several [3]) 1000
             (Several [10, 20]) (Mat 2 2 [[1, 2], [3, 4]]) 1
           = (Inl (ValueError (''Cannot compute if mode index is greater ''
                        @ ''than number of columns in the build coefficient matrix'')), [])"
    using v[where modes = "[3]"]
    by (simp add: compute_modes_def dot_ops_def validate_mode_request_def)
  have d: "validate_mode_request [2, 1] [10, 20 :: int] (Mat 2 2 [[1, 2], [3, 4 :: real]]) 1 = Inr ()"
    using v[where modes = "[2, 1]"] by simp
  show ?thesis using a b c d by (simp only: simp_thms)
qed

text \<open>
  Claim C6 as stated fails on a repeated mode number: modes \<open>[1, 1]\<close> against one snapshot
  is one distinct mode, within the one column of the matrix and not below \<open>indexFrom\<close>, yet
  the count check raises.
\<close>

theorem compute_modes_distinct_counterexample:
  "compute_modes example_util dot_ops pair_arith plus_fmt (Several [1, 1]) 1000 (Several [10])
       (Mat 1 1 [[2]]) 1
     = (Inl (ValueError ''cannot compute more modes than number of snapshots''), [])
   \<and> card (set [1, 1 :: int]) = 1 \<and> length [10 :: int] = 1
   \<and> \<not> (1 :: int) < 1 \<and> (1 :: int) - 1 < int (ncols (Mat 1 1 [[2 :: real]]))"
  by (simp add: compute_modes_def dot_ops_def validate_mode_request_def)



text \<open>
  Claim C9 on the code: without a save operation \<open>lin_combine\<close> raises \<open>UndefinedError\<close>
  at once, but \<open>_compute_modes\<close> names the exception class without its module, a name
  the module does not bind, and raises \<open>NameError\<close> instead; in both cases nothing has been
  loaded or saved.
\<close>

theorem save_undefined_errors:
  "lin_combine util (self\<lparr>save_field := None\<rparr>) ar outputArg inputArg M
     = (Inl (UndefinedError ''save_field is undefined''), [])
   \<and> compute_modes util (self\<lparr>save_field := None\<rparr>) ar fmt modeNumArg modePath snapArg M indexFrom
     = (Inl (NameError ''UndefinedError''), [])"
  by (simp add: lin_combine_def compute_modes_def raise_bare_UndefinedError_def module_globals_def)

end
